theory Spec2Isabelle
  imports
    Main
    "HOL-Library.Word"
    "HOL-Library.Signed_Division"
    "HOL-Library.Char_ord"
    "HOL-Library.List_Lexorder"
    "HOL-Library.AList"
begin

section \<open>Data model\<close>

text \<open>
  A connection handle stands for one \<^verbatim>\<open>*grpc.ClientConn\<close> object: the number is the
  identity of the object, the Go pointer \<^verbatim>\<open>nil\<close> is \<open>None\<close>.
\<close>

type_synonym conn = nat

text \<open>
  The source builds its error values with \<^verbatim>\<open>errors.New\<close> and \<^verbatim>\<open>fmt.Errorf\<close>; they are told
  apart by their message only. A run-time panic of Go (index out of range, integer divide
  by zero) is a value of the same type, so that it is a branch of the model.
\<close>

datatype error = Errorf string | Panic string

definition NoAvailableConnection :: error where
  "NoAvailableConnection = Errorf ''no available connection found''"

definition IndexOutOfRange :: error where
  "IndexOutOfRange = Panic ''index out of range''"

definition IntegerDivideByZero :: error where
  "IntegerDivideByZero = Panic ''integer divide by zero''"

text \<open>
  \<^verbatim>\<open>type clientConnManager struct\<close>. The map \<^verbatim>\<open>connSet\<close> is an association list with
  one entry for each key; a key can be present with the value \<^verbatim>\<open>nil\<close>. The mutex is left
  out: every operation below is one critical section and is modelled as one atomic step.
  \<open>closeLog\<close> is not a field of the struct: it records, in program order, every call of
  \<^verbatim>\<open>Close()\<close> on a connection handle, which is the only effect the code has outside the struct.
\<close>

record clientConnManager =
  connSet :: "(string \<times> conn option) list"
  endpoints :: "string list"
  lastRoundRobinIdx :: "32 word"
  closeLog :: "conn list"

definition newClientConnManager :: clientConnManager where
  "newClientConnManager =
     \<lparr>connSet = [], endpoints = [], lastRoundRobinIdx = - 1, closeLog = []\<rparr>"

text \<open>\<^verbatim>\<open>m.connSet[endpoint]\<close>: the zero value \<^verbatim>\<open>nil\<close> when the key is absent.\<close>

definition connSet_at :: "clientConnManager \<Rightarrow> string \<Rightarrow> conn option" where
  "connSet_at m endpoint =
     (case map_of (connSet m) endpoint of None \<Rightarrow> None | Some cc \<Rightarrow> cc)"

section \<open>The registry operations\<close>

text \<open>
  \<^verbatim>\<open>CloseAll\<close>: the \<^verbatim>\<open>range\<close> over the map closes every value that is not \<^verbatim>\<open>nil\<close>. Go leaves the
  order of the iteration open; the model takes the order of the association list.
\<close>

fun CloseAll_range :: "(string \<times> conn option) list \<Rightarrow> conn list \<Rightarrow> conn list" where
  "CloseAll_range [] log = log"
| "CloseAll_range ((k, cc) # rest) log =
     (case cc of
        Some c \<Rightarrow> CloseAll_range rest (log @ [c])
      | None \<Rightarrow> CloseAll_range rest log)"

definition CloseAll :: "clientConnManager \<Rightarrow> clientConnManager" where
  "CloseAll m = m\<lparr>closeLog := CloseAll_range (connSet m) (closeLog m)\<rparr>"

text \<open>
  The scan of \<^verbatim>\<open>ResetConn\<close> over the endpoint sequence:
  \<^verbatim>\<open>for ; idx < len(m.endpoints); idx++ { if m.endpoints[idx] == endpoint { continue } }\<close>.
  In Go \<^verbatim>\<open>continue\<close> runs the post statement \<^verbatim>\<open>idx++\<close> and tests the condition again, so
  both branches of the \<^verbatim>\<open>if\<close> go on with \<open>idx + 1\<close>. The result is the value of \<^verbatim>\<open>idx\<close>
  when the loop is left.
\<close>

function ResetConn_scan :: "string list \<Rightarrow> string \<Rightarrow> nat \<Rightarrow> nat" where
  "ResetConn_scan eps endpoint idx =
     (if idx < length eps
      then (if eps ! idx = endpoint
            then ResetConn_scan eps endpoint (idx + 1)
            else ResetConn_scan eps endpoint (idx + 1))
      else idx)"
  by pat_completeness auto
termination
  by (relation "measure (\<lambda>(eps, endpoint, idx). length eps - idx)") auto

text \<open>
  \<^verbatim>\<open>ResetConn\<close>: close the old connection of the endpoint when there is one, store the new
  value, run the scan, append the endpoint when the scan ended at the length of the
  sequence, and sort (\<^verbatim>\<open>sort.Strings\<close>: the byte-wise lexicographic order of Go strings).
\<close>

definition ResetConn :: "string \<Rightarrow> conn option \<Rightarrow> clientConnManager \<Rightarrow> clientConnManager" where
  "ResetConn endpoint cc m =
     (let log' = (case connSet_at m endpoint of
                    Some oldConn \<Rightarrow> closeLog m @ [oldConn]
                  | None \<Rightarrow> closeLog m);
          connSet' = AList.update endpoint cc (connSet m);
          idx = ResetConn_scan (endpoints m) endpoint 0;
          endpoints' = (if idx \<ge> length (endpoints m)
                        then endpoints m @ [endpoint]
                        else endpoints m)
      in m\<lparr>connSet := connSet', endpoints := sort endpoints', closeLog := log'\<rparr>)"

text \<open>
  The reading operations return the state next to their result, so that what they leave
  unchanged can be stated.
\<close>

definition GetConn :: "string \<Rightarrow> clientConnManager \<Rightarrow> conn option \<times> clientConnManager" where
  "GetConn endpoint m = (connSet_at m endpoint, m)"

fun FirstAvailableConn_range :: "clientConnManager \<Rightarrow> string list \<Rightarrow> error + conn" where
  "FirstAvailableConn_range m [] = Inl NoAvailableConnection"
| "FirstAvailableConn_range m (endpoint # rest) =
     (case connSet_at m endpoint of
        Some cc \<Rightarrow> Inr cc
      | None \<Rightarrow> FirstAvailableConn_range m rest)"

definition FirstAvailableConn :: "clientConnManager \<Rightarrow> (error + conn) \<times> clientConnManager" where
  "FirstAvailableConn m = (FirstAvailableConn_range m (endpoints m), m)"

text \<open>
  \<^verbatim>\<open>roundRobin\<close>. \<^verbatim>\<open>atomic.AddInt32(&m.lastRoundRobinIdx, 1)\<close> adds with wrap-around and
  returns the new value; \<^verbatim>\<open>int32(len(m.endpoints))\<close> keeps the low 32 bits of the length;
  \<^verbatim>\<open>%\<close> is the truncated remainder of Go (the sign of the dividend) and panics on a zero
  divisor; indexing the slice panics unless the index is in \<open>[0, len)\<close>. The cursor has
  been written when a panic happens.
\<close>

definition roundRobin ::
  "clientConnManager \<Rightarrow> (error + conn option \<times> string) \<times> clientConnManager" where
  "roundRobin m =
     (if length (endpoints m) > 0
      then (let new = lastRoundRobinIdx m + 1;
                m' = m\<lparr>lastRoundRobinIdx := new\<rparr>;
                n = (word_of_nat (length (endpoints m)) :: 32 word)
            in if n = 0 then (Inl IntegerDivideByZero, m')
               else (let i = sint new smod sint n
                     in if 0 \<le> i \<and> i < int (length (endpoints m))
                        then (let endpoint = endpoints m ! nat i
                              in (Inr (connSet_at m endpoint, endpoint), m'))
                        else (Inl IndexOutOfRange, m')))
      else (Inr (None, ''''), m))"

text \<open>
  \<^verbatim>\<open>RoundRobinConn\<close>: the \<^verbatim>\<open>for { ... }\<close> loop, with the local \<^verbatim>\<open>firstEndpoint\<close> as an argument.
  The fuel counts the calls of \<^verbatim>\<open>m.roundRobin()\<close> the loop may make; \<open>None\<close> means that the
  loop has not returned within that many calls.
\<close>

fun RoundRobinConn_loop ::
  "nat \<Rightarrow> string \<Rightarrow> clientConnManager \<Rightarrow> ((error + conn) \<times> clientConnManager) option" where
  "RoundRobinConn_loop 0 firstEndpoint m = None"
| "RoundRobinConn_loop (Suc fuel) firstEndpoint m =
     (case roundRobin m of
        (Inl p, m') \<Rightarrow> Some (Inl p, m')
      | (Inr (cc, endpoint), m') \<Rightarrow>
          if endpoint = '''' then Some (Inl NoAvailableConnection, m')
          else (case cc of
                  Some c \<Rightarrow> Some (Inr c, m')
                | None \<Rightarrow>
                    if firstEndpoint = '''' then RoundRobinConn_loop fuel endpoint m'
                    else if firstEndpoint = endpoint then Some (Inl NoAvailableConnection, m')
                    else RoundRobinConn_loop fuel firstEndpoint m'))"

definition RoundRobinConn ::
  "nat \<Rightarrow> clientConnManager \<Rightarrow> ((error + conn) \<times> clientConnManager) option" where
  "RoundRobinConn fuel m = RoundRobinConn_loop fuel '''' m"

section \<open>The client\<close>

text \<open>
  \<^verbatim>\<open>type haclient struct\<close>. \<open>onceDone\<close> is the state of \<^verbatim>\<open>sync.Once\<close> (its function has
  run), \<open>ctxDone\<close> the state of \<^verbatim>\<open>c.ctx\<close> (cancelled, which only a call of \<^verbatim>\<open>c.cancel\<close>
  brings about), \<open>dialTimeout\<close> a \<^verbatim>\<open>time.Duration\<close> in nanoseconds. The readiness probe and
  the dial are collaborators whose answers come from outside: they are arguments of the
  step that calls them. The wait group only counts the monitoring tasks and is left out.
\<close>

record haclient =
  onceDone :: bool
  ctxDone :: bool
  dialTimeout :: int
  endpoints_c :: "string list"
  availableConnManager :: clientConnManager

text \<open>\<^verbatim>\<open>Close\<close>: \<^verbatim>\<open>c.once.Do(func() { c.availableConnManager.CloseAll() })\<close>.\<close>

definition Close :: "haclient \<Rightarrow> haclient" where
  "Close c =
     (if onceDone c then c
      else c\<lparr>onceDone := True,
              availableConnManager := CloseAll (availableConnManager c)\<rparr>)"

text \<open>
  \<^verbatim>\<open>keepalive\<close> starts one monitoring task for each configured endpoint; the value is the
  list of the endpoints whose task is started.
\<close>

definition keepalive :: "haclient \<Rightarrow> string list" where
  "keepalive c = endpoints_c c"

text \<open>
  One pass of a monitoring task through \<^verbatim>\<open>case <-ticker.C\<close>, for its endpoint. The answers
  of the collaborators in this pass are arguments: \<open>probe cc\<close> is what
  \<^verbatim>\<open>c.readinessProbeRPC(cc)\<close> returns (\<open>None\<close> is the \<^verbatim>\<open>nil\<close> error) and \<open>dialed\<close> is what
  \<^verbatim>\<open>c.dial(endpoint)\<close> returns. Only the task of an endpoint writes the entry of that
  endpoint, so the pass is taken as one step on the registry.
\<close>

definition keepalive_tick ::
  "string \<Rightarrow> (conn \<Rightarrow> error option) \<Rightarrow> error + conn \<Rightarrow> clientConnManager \<Rightarrow> clientConnManager"
  where
  "keepalive_tick endpoint probe dialed m =
     (case fst (GetConn endpoint m) of
        Some cc \<Rightarrow>
          (case probe cc of
             Some err \<Rightarrow> ResetConn endpoint None m
           | None \<Rightarrow> m)
      | None \<Rightarrow>
          (case dialed of
             Inl err \<Rightarrow> m
           | Inr cc \<Rightarrow>
               (case probe cc of
                  Some err \<Rightarrow> m\<lparr>closeLog := closeLog m @ [cc]\<rparr>
                | None \<Rightarrow> ResetConn endpoint (Some cc) m)))"

text \<open>
  A monitoring task leaves its loop once the context is done; otherwise it makes a pass.
\<close>

definition keepalive_step ::
  "string \<Rightarrow> (conn \<Rightarrow> error option) \<Rightarrow> error + conn \<Rightarrow> haclient \<Rightarrow> haclient" where
  "keepalive_step endpoint probe dialed c =
     (if ctxDone c then c
      else c\<lparr>availableConnManager :=
                keepalive_tick endpoint probe dialed (availableConnManager c)\<rparr>)"

text \<open>\<^verbatim>\<open>strings.Join\<close>.\<close>

fun Join :: "string list \<Rightarrow> string \<Rightarrow> string" where
  "Join [] sep = []"
| "Join [x] sep = x"
| "Join (x # y # rest) sep = x @ sep @ Join (y # rest) sep"

text \<open>
  The wait of \<^verbatim>\<open>newHAClient\<close>: \<^verbatim>\<open>for i := 0; i < 30; i++\<close>, asking \<^verbatim>\<open>FirstAvailableConn\<close> after
  each sleep. The monitoring tasks fill the registry meanwhile; \<open>observed i\<close> is the
  registry as the \<open>i\<close>-th poll finds it. The result is the number of the first poll that
  succeeds.
\<close>

function newHAClient_wait :: "(nat \<Rightarrow> clientConnManager) \<Rightarrow> nat \<Rightarrow> nat option" where
  "newHAClient_wait observed i =
     (if i < 30
      then (case fst (FirstAvailableConn (observed i)) of
              Inr cc \<Rightarrow> Some i
            | Inl err \<Rightarrow> newHAClient_wait observed (i + 1))
      else None)"
  by pat_completeness auto
termination
  by (relation "measure (\<lambda>(observed, i). 30 - i)") auto

text \<open>
  What a call of \<^verbatim>\<open>newHAClient\<close> leaves behind: the pair it returns, the monitoring tasks
  it has started, and the client it has closed and dropped when the wait ran out.
\<close>

record construction =
  returned :: "error + haclient"
  started :: "string list"
  dropped :: "haclient option"

definition newHAClient ::
  "string list \<Rightarrow> (conn \<Rightarrow> error option) option \<Rightarrow> (haclient \<Rightarrow> haclient) list \<Rightarrow>
   (nat \<Rightarrow> clientConnManager) \<Rightarrow> construction" where
  "newHAClient eps readinessProbeRPC opts observed =
     (if length eps = 0
      then \<lparr>returned = Inl (Errorf ''no endpoints found''), started = [], dropped = None\<rparr>
      else if readinessProbeRPC = None
      then \<lparr>returned = Inl (Errorf ''readinessProbeRPC cannot be nil''), started = [],
             dropped = None\<rparr>
      else (let c0 = \<lparr>onceDone = False, ctxDone = False, dialTimeout = 5 * 1000000000,
                       endpoints_c = eps, availableConnManager = newClientConnManager\<rparr>;
                c = fold (\<lambda>opt c. opt c) opts c0;
                tasks = keepalive c
            in case newHAClient_wait observed 0 of
                 Some i \<Rightarrow>
                   \<lparr>returned = Inr (c\<lparr>availableConnManager := observed i\<rparr>),
                     started = tasks, dropped = None\<rparr>
               | None \<Rightarrow>
                   \<lparr>returned = Inl (Errorf (''no available endpoints '' @ Join eps '','')),
                     started = tasks,
                     dropped = Some (Close (c\<lparr>availableConnManager := observed 30\<rparr>))\<rparr>))"

text \<open>\<^verbatim>\<open>WithDialTimeout\<close>.\<close>

definition WithDialTimeout :: "int \<Rightarrow> haclient \<Rightarrow> haclient" where
  "WithDialTimeout timeout c = c\<lparr>dialTimeout := timeout\<rparr>"

text \<open>
  The two errors of the checks at the head of \<^verbatim>\<open>newHAClient\<close> are what the specification
  calls \<open>InvalidConfiguration\<close>.
\<close>

definition InvalidConfiguration :: "error \<Rightarrow> bool" where
  "InvalidConfiguration e \<longleftrightarrow>
     e = Errorf ''no endpoints found'' \<or> e = Errorf ''readinessProbeRPC cannot be nil''"

section \<open>Sequences of calls\<close>

text \<open>A sequence of \<^verbatim>\<open>ResetConn\<close> calls, each an endpoint and a handle or \<^verbatim>\<open>nil\<close>.\<close>

fun ResetConn_calls ::
  "(string \<times> conn option) list \<Rightarrow> clientConnManager \<Rightarrow> clientConnManager" where
  "ResetConn_calls [] m = m"
| "ResetConn_calls ((endpoint, cc) # rest) m = ResetConn_calls rest (ResetConn endpoint cc m)"

text \<open>
  The states of a registry in use: a new one, and what \<^verbatim>\<open>ResetConn\<close>, \<^verbatim>\<open>roundRobin\<close>,
  \<^verbatim>\<open>CloseAll\<close> and a \<^verbatim>\<open>Close()\<close> of a handle by a monitoring task make of one.
\<close>

inductive reachable :: "clientConnManager \<Rightarrow> bool" where
  reachable_new: "reachable newClientConnManager"
| reachable_ResetConn: "reachable m \<Longrightarrow> reachable (ResetConn endpoint cc m)"
| reachable_roundRobin: "reachable m \<Longrightarrow> reachable (snd (roundRobin m))"
| reachable_CloseAll: "reachable m \<Longrightarrow> reachable (CloseAll m)"
| reachable_Close: "reachable m \<Longrightarrow> reachable (m\<lparr>closeLog := closeLog m @ [cc]\<rparr>)"

text \<open>
  \<^verbatim>\<open>roundRobin\<close> called \<open>n\<close> times in a row: the results in order, and the last state.
\<close>

fun roundRobin_times ::
  "nat \<Rightarrow> clientConnManager \<Rightarrow> (error + conn option \<times> string) list \<times> clientConnManager" where
  "roundRobin_times 0 m = ([], m)"
| "roundRobin_times (Suc n) m =
     (case roundRobin m of
        (r, m') \<Rightarrow> (case roundRobin_times n m' of (rs, m'') \<Rightarrow> (r # rs, m'')))"

text \<open>
  The length of the endpoint sequence fits \<^verbatim>\<open>int32\<close>, and the next \<open>k\<close> increments of the
  cursor stay inside \<^verbatim>\<open>int32\<close> and give indices that are not negative. A new registry
  (cursor \<open>-1\<close>) is in this range for its first \<open>2 ^ 31 - 1\<close> calls of \<^verbatim>\<open>roundRobin\<close>.
\<close>

definition cursor_in_range :: "clientConnManager \<Rightarrow> nat \<Rightarrow> bool" where
  "cursor_in_range m k \<longleftrightarrow>
     length (endpoints m) < 2147483648
     \<and> - 1 \<le> sint (lastRoundRobinIdx m)
     \<and> sint (lastRoundRobinIdx m) + int k < 2147483648"

text \<open>
  The position in the endpoint sequence that the \<open>(k + 1)\<close>-th of the next calls of
  \<^verbatim>\<open>roundRobin\<close> looks at, while the cursor is in range.
\<close>

definition slot :: "clientConnManager \<Rightarrow> nat \<Rightarrow> nat" where
  "slot m k = (nat (sint (lastRoundRobinIdx m) + 1) + k) mod length (endpoints m)"

text \<open>
  What the specification says about a sequence of \<open>register\<close> calls, written from its
  words and not from the code: the value most recently registered for an endpoint, the
  values that a later call for the same endpoint has superseded (in the order of the
  superseding calls), and the handles that have been registered at all.
\<close>

definition last_registered :: "(string \<times> conn option) list \<Rightarrow> string \<Rightarrow> conn option" where
  "last_registered calls endpoint =
     (case map_of (rev calls) endpoint of None \<Rightarrow> None | Some cc \<Rightarrow> cc)"

definition superseded :: "(string \<times> conn option) list \<Rightarrow> conn list" where
  "superseded calls =
     concat (map (\<lambda>i. case last_registered (take i calls) (fst (calls ! i)) of
                        Some old \<Rightarrow> [old]
                      | None \<Rightarrow> [])
                 [0..<length calls])"

fun registered_handles :: "(string \<times> conn option) list \<Rightarrow> conn list" where
  "registered_handles [] = []"
| "registered_handles ((endpoint, Some cc) # rest) = cc # registered_handles rest"
| "registered_handles ((endpoint, None) # rest) = registered_handles rest"

text \<open>
  A run of monitoring passes, of any tasks in any interleaving: each pass names its
  endpoint and carries the answers of the probe and of the dial.
\<close>

type_synonym pass = "string \<times> (conn \<Rightarrow> error option) \<times> (error + conn)"

fun keepalive_passes :: "pass list \<Rightarrow> clientConnManager \<Rightarrow> clientConnManager" where
  "keepalive_passes [] m = m"
| "keepalive_passes ((endpoint, probe, dialed) # rest) m =
     keepalive_passes rest (keepalive_tick endpoint probe dialed m)"

text \<open>
  The bookkeeping of a run, read off \<^verbatim>\<open>keepalive\<close>: the calls of the readiness probe a run
  makes (the handle, and whether the probe succeeded), and the handles its dials return.
  A pass probes the registered connection when there is one, and otherwise dials and
  probes what the dial returns.
\<close>

fun probe_history :: "pass list \<Rightarrow> clientConnManager \<Rightarrow> (conn \<times> bool) list" where
  "probe_history [] m = []"
| "probe_history ((endpoint, probe, dialed) # rest) m =
     (case connSet_at m endpoint of
        Some cc \<Rightarrow> [(cc, probe cc = None)]
      | None \<Rightarrow> (case dialed of Inl err \<Rightarrow> [] | Inr cc \<Rightarrow> [(cc, probe cc = None)]))
     @ probe_history rest (keepalive_tick endpoint probe dialed m)"

fun dialed_handles :: "pass list \<Rightarrow> clientConnManager \<Rightarrow> conn list" where
  "dialed_handles [] m = []"
| "dialed_handles ((endpoint, probe, dialed) # rest) m =
     (case connSet_at m endpoint of
        Some cc \<Rightarrow> []
      | None \<Rightarrow> (case dialed of Inl err \<Rightarrow> [] | Inr cc \<Rightarrow> [cc]))
     @ dialed_handles rest (keepalive_tick endpoint probe dialed m)"

text \<open>The most recent probe of a handle in a history has failed.\<close>

definition failed_last_probe :: "(conn \<times> bool) list \<Rightarrow> conn \<Rightarrow> bool" where
  "failed_last_probe history cc =
     (case map_of (rev history) cc of Some ok \<Rightarrow> \<not> ok | None \<Rightarrow> False)"

text \<open>
  The invariant of a run of monitoring passes with its history \<open>h\<close> of probes and the
  handles \<open>d\<close> dialed so far: every registered connection has been dialed in the run and
  its most recent probe has not failed, and no connection is registered for two endpoints.
\<close>

definition registry_probed_ok :: "clientConnManager \<Rightarrow> (conn \<times> bool) list \<Rightarrow> conn list \<Rightarrow> bool" where
  "registry_probed_ok m h d \<longleftrightarrow>
     (\<forall>e c. connSet_at m e = Some c \<longrightarrow> c \<in> set d \<and> \<not> failed_last_probe h c)
     \<and> (\<forall>e e' c. connSet_at m e = Some c \<and> connSet_at m e' = Some c \<longrightarrow> e = e')"

section \<open>The endpoint sequence after repeated registration\<close>

declare ResetConn_scan.simps [simp del]

lemma ResetConn_scan_end: "ResetConn_scan eps endpoint idx = max idx (length eps)"
proof (induction eps endpoint idx rule: ResetConn_scan.induct)
  case (1 eps endpoint idx)
  show ?case
  proof (cases "idx < length eps")
    case True
    with "1" show ?thesis
      by (subst ResetConn_scan.simps) (cases "eps ! idx = endpoint"; simp add: max_def)
  next
    case False
    then show ?thesis
      by (subst ResetConn_scan.simps) (simp add: max_def)
  qed
qed

lemma endpoints_ResetConn: "endpoints (ResetConn endpoint cc m) = sort (endpoints m @ [endpoint])"
  by (simp add: ResetConn_def Let_def ResetConn_scan_end)

lemma length_endpoints_ResetConn:
  "length (endpoints (ResetConn endpoint cc m)) = Suc (length (endpoints m))"
  by (simp add: endpoints_ResetConn)

text \<open>
  C1. The claim: after any sequence of \<^verbatim>\<open>ResetConn\<close> calls the endpoint sequence has no
  duplicates, and registering an endpoint a second time adds no second entry. The scan of
  \<^verbatim>\<open>ResetConn\<close> never leaves its loop on a match, so the endpoint is appended at every
  call: registering \<open>''a''\<close> twice on a new registry gives a sequence with two entries
  \<open>''a''\<close>, which is not duplicate-free.
\<close>

theorem ResetConn_twice_duplicates:
  "endpoints (ResetConn ''a'' None (ResetConn ''a'' None newClientConnManager)) = [''a'', ''a'']
   \<and> \<not> distinct (endpoints (ResetConn ''a'' None (ResetConn ''a'' None newClientConnManager)))"
  by (simp add: endpoints_ResetConn newClientConnManager_def)

section \<open>What the operations change\<close>

lemma connSet_at_ResetConn:
  "connSet_at (ResetConn endpoint cc m) e = (if e = endpoint then cc else connSet_at m e)"
  by (simp add: ResetConn_def Let_def connSet_at_def update_conv')

lemma closeLog_ResetConn:
  "closeLog (ResetConn endpoint cc m) =
     closeLog m @ (case connSet_at m endpoint of Some oldConn \<Rightarrow> [oldConn] | None \<Rightarrow> [])"
  by (simp add: ResetConn_def Let_def split: option.splits)

lemma lastRoundRobinIdx_ResetConn:
  "lastRoundRobinIdx (ResetConn endpoint cc m) = lastRoundRobinIdx m"
  by (simp add: ResetConn_def Let_def)

lemma roundRobin_frame:
  "snd (roundRobin m) =
     (if endpoints m = [] then m else m\<lparr>lastRoundRobinIdx := lastRoundRobinIdx m + 1\<rparr>)"
  by (simp add: roundRobin_def Let_def)

lemma connSet_at_cursor [simp]: "connSet_at (m\<lparr>lastRoundRobinIdx := w\<rparr>) e = connSet_at m e"
  by (simp add: connSet_at_def)

lemma connSet_at_closeLog [simp]: "connSet_at (m\<lparr>closeLog := l\<rparr>) e = connSet_at m e"
  by (simp add: connSet_at_def)

lemma connSet_at_roundRobin: "connSet_at (snd (roundRobin m)) e = connSet_at m e"
  by (simp add: roundRobin_frame)

lemma endpoints_roundRobin: "endpoints (snd (roundRobin m)) = endpoints m"
  by (simp add: roundRobin_frame)

lemma connSet_at_CloseAll: "connSet_at (CloseAll m) e = connSet_at m e"
  by (simp add: CloseAll_def)

lemma endpoints_CloseAll: "endpoints (CloseAll m) = endpoints m"
  by (simp add: CloseAll_def)

text \<open>
  C10. \<^verbatim>\<open>GetConn\<close> and \<^verbatim>\<open>FirstAvailableConn\<close> return the registry as they found it.
  \<^verbatim>\<open>roundRobin\<close> on a non-empty endpoint sequence changes the cursor and nothing else, and
  the new cursor is the old one plus one (the addition of \<^verbatim>\<open>int32\<close>, which wraps around);
  this holds as well when the call ends in a panic. On an empty endpoint sequence it
  returns no connection and the empty endpoint name, which \<^verbatim>\<open>RoundRobinConn\<close> turns into
  the error, and the registry, cursor included, is as it was.
\<close>

theorem reads_frame:
  "snd (GetConn endpoint m) = m
   \<and> snd (FirstAvailableConn m) = m
   \<and> snd (roundRobin m) =
       (if endpoints m = [] then m else m\<lparr>lastRoundRobinIdx := lastRoundRobinIdx m + 1\<rparr>)
   \<and> (if endpoints m = []
       then fst (roundRobin m) = Inr (None, [])
            \<and> RoundRobinConn (Suc fuel) m = Some (Inl NoAvailableConnection, m)
       else lastRoundRobinIdx (snd (roundRobin m)) = lastRoundRobinIdx m + 1
            \<and> connSet (snd (roundRobin m)) = connSet m
            \<and> endpoints (snd (roundRobin m)) = endpoints m
            \<and> closeLog (snd (roundRobin m)) = closeLog m)"
  by (simp add: GetConn_def FirstAvailableConn_def roundRobin_def RoundRobinConn_def Let_def)

section \<open>Closing the client\<close>

lemma CloseAll_range_log:
  "CloseAll_range al log = log @ concat (map (\<lambda>(k, cc). case cc of Some c \<Rightarrow> [c] | None \<Rightarrow> []) al)"
  by (induction al arbitrary: log) (auto split: option.splits)

lemma CloseAll_range_closes:
  "map_of al k = Some (Some c) \<Longrightarrow> c \<in> set (CloseAll_range al log)"
  by (auto simp: CloseAll_range_log dest!: map_of_SomeD intro!: bexI [where x = "(k, Some c)"])

lemma CloseAll_closes_live:
  "connSet_at m endpoint = Some c \<Longrightarrow> c \<in> set (closeLog (CloseAll m))"
  by (auto simp: connSet_at_def CloseAll_def split: option.splits intro: CloseAll_range_closes)

lemma Close_twice: "Close (Close c) = Close c"
  by (simp add: Close_def)

lemma Close_closes_live:
  "\<not> onceDone c \<Longrightarrow> connSet_at (availableConnManager c) endpoint = Some cc \<Longrightarrow>
   cc \<in> set (closeLog (availableConnManager (Close c)))"
  by (simp add: Close_def CloseAll_closes_live)

lemma Close_keeps_context: "ctxDone (Close c) = ctxDone c"
  by (simp add: Close_def)

lemma keepalive_step_after_Close:
  "\<not> ctxDone c \<Longrightarrow>
   availableConnManager (keepalive_step endpoint probe dialed (Close c)) =
     keepalive_tick endpoint probe dialed (availableConnManager (Close c))"
  by (simp add: keepalive_step_def Close_keeps_context)

text \<open>
  C2. The claim: \<^verbatim>\<open>Close\<close> has an effect only at its first call, and that call cancels the
  signal the monitoring tasks watch and then closes every live connection. The code runs
  \<^verbatim>\<open>CloseAll\<close> under \<^verbatim>\<open>sync.Once\<close> and never calls \<^verbatim>\<open>c.cancel\<close>. For a client with the endpoint
  \<open>''a''\<close> and the connection \<open>1\<close> registered for it: the first \<^verbatim>\<open>Close\<close> closes \<open>1\<close>, a
  second \<^verbatim>\<open>Close\<close> changes nothing, the context is not done afterwards, and the next pass
  of the monitoring task runs: it finds the closed connection, its probe fails and \<^verbatim>\<open>ResetConn\<close>
  closes the handle \<open>1\<close> a second time, and when the dial and the probe of the pass after
  that succeed, the new connection \<open>2\<close> is registered in the client that has been closed.
\<close>

theorem Close_never_cancels:
  "(let c = \<lparr>onceDone = False, ctxDone = False, dialTimeout = 5000000000,
              endpoints_c = [''a''],
              availableConnManager = ResetConn ''a'' (Some 1) newClientConnManager\<rparr>;
        c1 = Close c;
        c2 = keepalive_step ''a'' (\<lambda>cc. Some (Errorf ''closed'')) (Inr 2) c1;
        c3 = keepalive_step ''a'' (\<lambda>cc. None) (Inr 2) c2
    in closeLog (availableConnManager c1) = [1]
       \<and> Close c1 = c1
       \<and> ctxDone c1 = False
       \<and> closeLog (availableConnManager c2) = [1, 1]
       \<and> fst (GetConn ''a'' (availableConnManager c3)) = Some 2)"
  by (simp add: Let_def Close_def keepalive_step_def keepalive_tick_def GetConn_def
      CloseAll_def connSet_at_ResetConn closeLog_ResetConn newClientConnManager_def
      connSet_at_def ResetConn_def)

section \<open>Construction\<close>

lemma newHAClient_starts_tasks:
  "eps \<noteq> [] \<Longrightarrow> readinessProbeRPC \<noteq> None \<Longrightarrow>
   started (newHAClient eps readinessProbeRPC [] observed) = eps"
  by (simp add: newHAClient_def Let_def keepalive_def split: option.splits)

text \<open>
  C9. When the endpoint list is empty or the readiness probe is \<^verbatim>\<open>nil\<close>, \<^verbatim>\<open>newHAClient\<close>
  returns one of the two errors of its first two checks (\<open>InvalidConfiguration\<close> in the
  words of the specification), and it returns before \<^verbatim>\<open>go c.keepalive()\<close>: no monitoring
  task has been started and no client has been built.
\<close>

theorem newHAClient_invalid:
  "eps = [] \<or> readinessProbeRPC = None \<Longrightarrow>
   \<exists>e. returned (newHAClient eps readinessProbeRPC opts observed) = Inl e
       \<and> InvalidConfiguration e
       \<and> started (newHAClient eps readinessProbeRPC opts observed) = []
       \<and> dropped (newHAClient eps readinessProbeRPC opts observed) = None"
  by (auto simp: newHAClient_def InvalidConfiguration_def)

theorem newHAClient_invalid_witness:
  "(([]::string list) = [] \<or> Some (\<lambda>cc::conn. None::error option) = None)
   \<and> ([''a''] = [] \<or> (None::(conn \<Rightarrow> error option) option) = None)
   \<and> (\<exists>e. returned (newHAClient [] (Some (\<lambda>cc. None)) [WithDialTimeout 1]
                (\<lambda>i. newClientConnManager)) = Inl e
          \<and> InvalidConfiguration e
          \<and> started (newHAClient [] (Some (\<lambda>cc. None)) [WithDialTimeout 1]
                (\<lambda>i. newClientConnManager)) = []
          \<and> dropped (newHAClient [] (Some (\<lambda>cc. None)) [WithDialTimeout 1]
                (\<lambda>i. newClientConnManager)) = None)
   \<and> (\<exists>e. returned (newHAClient [''a''] None [] (\<lambda>i. newClientConnManager)) = Inl e
          \<and> InvalidConfiguration e
          \<and> started (newHAClient [''a''] None [] (\<lambda>i. newClientConnManager)) = []
          \<and> dropped (newHAClient [''a''] None [] (\<lambda>i. newClientConnManager)) = None)"
  using newHAClient_invalid [of "[]" "Some (\<lambda>cc. None)" "[WithDialTimeout 1]"
      "\<lambda>i. newClientConnManager"]
    newHAClient_invalid [of "[''a'']" None "[]" "\<lambda>i. newClientConnManager"]
  by simp

section \<open>First available connection\<close>

lemma reachable_sorted: "reachable m \<Longrightarrow> sorted (endpoints m)"
  by (induction rule: reachable.induct)
    (simp_all add: newClientConnManager_def endpoints_ResetConn endpoints_roundRobin
      endpoints_CloseAll)

lemma reachable_live_listed:
  "reachable m \<Longrightarrow> connSet_at m e = Some c \<Longrightarrow> e \<in> set (endpoints m)"
proof (induction arbitrary: e c rule: reachable.induct)
  case reachable_new
  then show ?case by (simp add: newClientConnManager_def connSet_at_def)
next
  case (reachable_ResetConn m endpoint cc)
  then show ?case
    by (auto simp: connSet_at_ResetConn endpoints_ResetConn split: if_splits)
next
  case (reachable_roundRobin m)
  then show ?case by (simp add: connSet_at_roundRobin endpoints_roundRobin)
next
  case (reachable_CloseAll m)
  then show ?case by (simp add: connSet_at_CloseAll endpoints_CloseAll)
next
  case (reachable_Close m cc)
  then show ?case by simp
qed

lemma reachable_keepalive_tick:
  "reachable m \<Longrightarrow> reachable (keepalive_tick endpoint probe dialed m)"
  by (auto simp: keepalive_tick_def intro: reachable.intros split: option.splits sum.splits)

lemma FirstAvailableConn_range_least:
  "sorted es \<Longrightarrow> e \<in> set es \<Longrightarrow> connSet_at m e = Some c \<Longrightarrow>
   \<exists>e0 c0. FirstAvailableConn_range m es = Inr c0 \<and> e0 \<in> set es \<and> connSet_at m e0 = Some c0
     \<and> (\<forall>e' \<in> set es. connSet_at m e' \<noteq> None \<longrightarrow> e0 \<le> e')"
proof (induction es)
  case Nil
  then show ?case by simp
next
  case (Cons x es)
  show ?case
  proof (cases "connSet_at m x")
    case (Some cx)
    from Cons.prems(1) have "\<forall>e' \<in> set (x # es). x \<le> e'" by auto
    with Some show ?thesis by auto
  next
    case None
    with Cons.prems have "e \<in> set es" by auto
    moreover from Cons.prems(1) have "sorted es" by simp
    ultimately obtain e0 c0 where
      "FirstAvailableConn_range m es = Inr c0" "e0 \<in> set es" "connSet_at m e0 = Some c0"
      "\<forall>e' \<in> set es. connSet_at m e' \<noteq> None \<longrightarrow> e0 \<le> e'"
      using Cons.IH Cons.prems(3) by blast
    with None show ?thesis by auto
  qed
qed

text \<open>
  C6. In every state of a registry in use that holds a live connection,
  \<^verbatim>\<open>FirstAvailableConn\<close> returns the connection of the least endpoint, in the order of
  \<^verbatim>\<open>sort.Strings\<close>, among the endpoints that have a live connection. The result is a
  function of the state, so it is the same at every call on that state.
\<close>

theorem FirstAvailableConn_least:
  assumes "reachable m" and "connSet_at m e = Some c"
  shows "\<exists>e0 c0. fst (FirstAvailableConn m) = Inr c0 \<and> connSet_at m e0 = Some c0
           \<and> (\<forall>e'. connSet_at m e' \<noteq> None \<longrightarrow> e0 \<le> e')"
proof -
  from assms have "e \<in> set (endpoints m)" by (rule reachable_live_listed)
  with assms obtain e0 c0 where *:
    "FirstAvailableConn_range m (endpoints m) = Inr c0" "connSet_at m e0 = Some c0"
    "\<forall>e' \<in> set (endpoints m). connSet_at m e' \<noteq> None \<longrightarrow> e0 \<le> e'"
    using FirstAvailableConn_range_least [OF reachable_sorted] by blast
  have "e0 \<le> e'" if "connSet_at m e' \<noteq> None" for e'
  proof -
    from that obtain c' where "connSet_at m e' = Some c'" by auto
    with assms(1) have "e' \<in> set (endpoints m)" by (rule reachable_live_listed)
    with * that show ?thesis by blast
  qed
  with * show ?thesis by (auto simp: FirstAvailableConn_def)
qed

theorem FirstAvailableConn_least_witness:
  "reachable (ResetConn ''a'' (Some 2) (ResetConn ''b'' (Some 1) newClientConnManager))
   \<and> connSet_at (ResetConn ''a'' (Some 2) (ResetConn ''b'' (Some 1) newClientConnManager)) ''b''
       = Some 1
   \<and> fst (FirstAvailableConn
         (ResetConn ''a'' (Some 2) (ResetConn ''b'' (Some 1) newClientConnManager))) = Inr 2
   \<and> (\<exists>e0 c0. fst (FirstAvailableConn
         (ResetConn ''a'' (Some 2) (ResetConn ''b'' (Some 1) newClientConnManager))) = Inr c0
       \<and> connSet_at (ResetConn ''a'' (Some 2) (ResetConn ''b'' (Some 1) newClientConnManager)) e0
           = Some c0
       \<and> (\<forall>e'. connSet_at (ResetConn ''a'' (Some 2)
                   (ResetConn ''b'' (Some 1) newClientConnManager)) e' \<noteq> None \<longrightarrow> e0 \<le> e'))"
proof -
  let ?m = "ResetConn ''a'' (Some 2) (ResetConn ''b'' (Some 1) newClientConnManager)"
  have r: "reachable ?m"
    by (intro reachable_ResetConn reachable_new)
  have l: "connSet_at ?m ''b'' = Some 1"
    by (simp add: connSet_at_ResetConn)
  have f: "fst (FirstAvailableConn ?m) = Inr 2"
    by (simp add: FirstAvailableConn_def endpoints_ResetConn connSet_at_ResetConn
        newClientConnManager_def)
  from FirstAvailableConn_least [OF r l] r l f show ?thesis by simp
qed

section \<open>Registering and superseding connections\<close>

lemma ResetConn_calls_append:
  "ResetConn_calls (xs @ ys) m = ResetConn_calls ys (ResetConn_calls xs m)"
  by (induction xs arbitrary: m) auto

lemma last_registered_snoc:
  "last_registered (calls @ [(endpoint, cc)]) e =
     (if e = endpoint then cc else last_registered calls e)"
  by (simp add: last_registered_def)

lemma superseded_snoc:
  "superseded (calls @ [(endpoint, cc)]) =
     superseded calls @ (case last_registered calls endpoint of Some old \<Rightarrow> [old] | None \<Rightarrow> [])"
proof -
  define F where "F = (\<lambda>i. case last_registered (take i (calls @ [(endpoint, cc)]))
                               (fst ((calls @ [(endpoint, cc)]) ! i)) of
                          Some old \<Rightarrow> [old] | None \<Rightarrow> [])"
  define G where "G = (\<lambda>i. case last_registered (take i calls) (fst (calls ! i)) of
                          Some old \<Rightarrow> [old] | None \<Rightarrow> [])"
  have eq: "map F [0..<length calls] = map G [0..<length calls]"
    by (rule map_cong) (simp_all add: F_def G_def nth_append)
  have final: "F (length calls) =
      (case last_registered calls endpoint of Some old \<Rightarrow> [old] | None \<Rightarrow> [])"
    by (simp add: F_def)
  have "superseded (calls @ [(endpoint, cc)]) = concat (map F [0..<Suc (length calls)])"
    by (simp add: superseded_def F_def)
  also have "\<dots> = concat (map F [0..<length calls]) @ F (length calls)"
    by simp
  also have "\<dots> = superseded calls @ F (length calls)"
    by (simp add: eq superseded_def G_def)
  finally show ?thesis
    by (simp add: final)
qed

lemma registered_handles_append:
  "registered_handles (xs @ ys) = registered_handles xs @ registered_handles ys"
  by (induction xs rule: registered_handles.induct) auto

lemma get_after_calls:
  "connSet_at (ResetConn_calls calls newClientConnManager) e = last_registered calls e"
proof (induction calls arbitrary: e rule: rev_induct)
  case Nil
  show ?case by (simp add: last_registered_def newClientConnManager_def connSet_at_def)
next
  case (snoc x calls)
  obtain endpoint cc where "x = (endpoint, cc)" by (cases x)
  with snoc show ?case
    by (simp add: ResetConn_calls_append connSet_at_ResetConn last_registered_snoc)
qed

lemma closeLog_after_calls:
  "closeLog (ResetConn_calls calls newClientConnManager) = superseded calls"
proof (induction calls rule: rev_induct)
  case Nil
  show ?case by (simp add: superseded_def newClientConnManager_def)
next
  case (snoc x calls)
  obtain endpoint cc where "x = (endpoint, cc)" by (cases x)
  with snoc show ?case
    by (simp add: ResetConn_calls_append closeLog_ResetConn superseded_snoc get_after_calls)
qed

lemma superseded_distinct_aux:
  "distinct (registered_handles calls) \<Longrightarrow>
   distinct (superseded calls)
   \<and> set (superseded calls) \<subseteq> set (registered_handles calls)
   \<and> (\<forall>e h. last_registered calls e = Some h \<longrightarrow>
         h \<notin> set (superseded calls) \<and> h \<in> set (registered_handles calls))
   \<and> (\<forall>e e' h. last_registered calls e = Some h \<and> last_registered calls e' = Some h \<longrightarrow> e = e')"
proof (induction calls rule: rev_induct)
  case Nil
  show ?case by (simp add: superseded_def last_registered_def)
next
  case (snoc x calls)
  obtain endpoint cc where x: "x = (endpoint, cc)" by (cases x)
  from snoc.prems have d: "distinct (registered_handles calls)"
    by (simp add: registered_handles_append)
  note IH = snoc.IH [OF d]
  from snoc.prems x have fresh: "cc = Some h \<Longrightarrow> h \<notin> set (registered_handles calls)" for h
    by (auto simp: registered_handles_append)
  show ?case
    unfolding x
    using IH fresh
    by (cases cc; cases "last_registered calls endpoint")
      (auto simp: superseded_snoc last_registered_snoc registered_handles_append
        split: if_splits)
qed

lemma count_list_distinct: "distinct xs \<Longrightarrow> x \<in> set xs \<Longrightarrow> count_list xs x = 1"
  by (induction xs) (auto simp: count_list_0_iff)

text \<open>
  C5. After any sequence of \<^verbatim>\<open>ResetConn\<close> calls on a new registry, \<^verbatim>\<open>GetConn\<close> returns for
  each endpoint the value registered last for it (\<^verbatim>\<open>nil\<close> when there was none), and the
  calls of \<^verbatim>\<open>Close()\<close> made so far are the superseded values, one call for each
  supersession, in the order of the superseding calls. Within one call the handle that is
  closed is the one \<^verbatim>\<open>GetConn\<close> returned before the call: the old connection is closed
  while it is still the registered one, and the new value is stored after that. When no
  handle is registered twice, every superseded handle has been closed exactly once.
\<close>

theorem register_get_close:
  "fst (GetConn e (ResetConn_calls calls newClientConnManager)) = last_registered calls e
   \<and> closeLog (ResetConn_calls calls newClientConnManager) = superseded calls
   \<and> closeLog (ResetConn endpoint cc m) =
       closeLog m @ (case fst (GetConn endpoint m) of Some old \<Rightarrow> [old] | None \<Rightarrow> [])
   \<and> (distinct (registered_handles calls) \<longrightarrow>
        (\<forall>old \<in> set (superseded calls).
           count_list (closeLog (ResetConn_calls calls newClientConnManager)) old = 1))"
  using superseded_distinct_aux [of calls]
  by (simp add: GetConn_def get_after_calls closeLog_after_calls closeLog_ResetConn
      count_list_distinct)

theorem register_get_close_witness:
  "distinct (registered_handles
      [(''a'', Some 1), (''b'', Some 2), (''a'', Some 3), (''a'', None), (''b'', Some 4)])
   \<and> superseded
      [(''a'', Some 1), (''b'', Some 2), (''a'', Some 3), (''a'', None), (''b'', Some 4)]
       = [1, 3, 2]
   \<and> fst (GetConn ''a'' (ResetConn_calls
      [(''a'', Some 1), (''b'', Some 2), (''a'', Some 3), (''a'', None), (''b'', Some 4)]
      newClientConnManager)) = None
   \<and> fst (GetConn ''b'' (ResetConn_calls
      [(''a'', Some 1), (''b'', Some 2), (''a'', Some 3), (''a'', None), (''b'', Some 4)]
      newClientConnManager)) = Some 4
   \<and> closeLog (ResetConn_calls
      [(''a'', Some 1), (''b'', Some 2), (''a'', Some 3), (''a'', None), (''b'', Some 4)]
      newClientConnManager) = [1, 3, 2]
   \<and> count_list (closeLog (ResetConn_calls
      [(''a'', Some 1), (''b'', Some 2), (''a'', Some 3), (''a'', None), (''b'', Some 4)]
      newClientConnManager)) 1 = 1
   \<and> count_list (closeLog (ResetConn_calls
      [(''a'', Some 1), (''b'', Some 2), (''a'', Some 3), (''a'', None), (''b'', Some 4)]
      newClientConnManager)) 3 = 1
   \<and> count_list (closeLog (ResetConn_calls
      [(''a'', Some 1), (''b'', Some 2), (''a'', Some 3), (''a'', None), (''b'', Some 4)]
      newClientConnManager)) 2 = 1"
proof -
  let ?calls = "[(''a'', Some 1), (''b'', Some 2), (''a'', Some 3), (''a'', None),
      (''b'', Some (4::nat))]"
  have d: "distinct (registered_handles ?calls)"
    by simp
  have s: "superseded ?calls = [1, 3, 2]"
    by code_simp
  have a: "last_registered ?calls ''a'' = None" and b: "last_registered ?calls ''b'' = Some 4"
    by (simp_all add: last_registered_def)
  from register_get_close [where calls = ?calls and e = "''a''"]
    register_get_close [where calls = ?calls and e = "''b''"] d s a b
  show ?thesis by simp
qed

section \<open>The monitoring task\<close>

lemma connSet_at_tick:
  "connSet_at (keepalive_tick endpoint probe dialed m) e =
     (if e \<noteq> endpoint then connSet_at m e
      else (case connSet_at m endpoint of
              Some cc \<Rightarrow> (case probe cc of Some err \<Rightarrow> None | None \<Rightarrow> Some cc)
            | None \<Rightarrow> (case dialed of Inl err \<Rightarrow> None
                       | Inr cc \<Rightarrow> (case probe cc of Some err \<Rightarrow> None | None \<Rightarrow> Some cc))))"
  by (simp add: keepalive_tick_def GetConn_def connSet_at_ResetConn split: option.splits sum.splits)

lemma failed_last_probe_snoc:
  "failed_last_probe (h @ [(cc, ok)]) c = (if c = cc then \<not> ok else failed_last_probe h c)"
  by (simp add: failed_last_probe_def)

lemma failed_last_probe_Nil: "failed_last_probe [] c = False"
  by (simp add: failed_last_probe_def)

lemma tick_keeps_probed_ok:
  assumes "registry_probed_ok m h d"
    and "distinct (d @ dialed_handles [(endpoint, probe, dialed)] m)"
  shows "registry_probed_ok (keepalive_tick endpoint probe dialed m)
           (h @ probe_history [(endpoint, probe, dialed)] m)
           (d @ dialed_handles [(endpoint, probe, dialed)] m)"
  using assms unfolding registry_probed_ok_def
  by (cases "connSet_at m endpoint"; cases dialed; cases "probe (projr dialed)")
    (auto simp: connSet_at_tick failed_last_probe_snoc split: option.splits if_splits)


lemma dialed_handles_Cons:
  "dialed_handles (p # rest) m =
     dialed_handles [p] m @ dialed_handles rest (keepalive_passes [p] m)"
  by (cases p) simp

lemma probe_history_Cons:
  "probe_history (p # rest) m =
     probe_history [p] m @ probe_history rest (keepalive_passes [p] m)"
  by (cases p) simp

lemma passes_keep_probed_ok:
  "registry_probed_ok m h d \<Longrightarrow> distinct (d @ dialed_handles passes m) \<Longrightarrow>
   registry_probed_ok (keepalive_passes passes m) (h @ probe_history passes m)
     (d @ dialed_handles passes m)"
proof (induction passes arbitrary: m h d)
  case Nil
  then show ?case by simp
next
  case (Cons p rest)
  obtain endpoint probe dialed where p: "p = (endpoint, probe, dialed)"
    by (cases p)
  let ?m = "keepalive_tick endpoint probe dialed m"
  let ?h = "h @ probe_history [p] m"
  let ?d = "d @ dialed_handles [p] m"
  from Cons.prems(2) have dist: "distinct (?d @ dialed_handles rest ?m)"
    by (subst (asm) dialed_handles_Cons) (simp add: p)
  then have "distinct ?d"
    by auto
  with Cons.prems(1) have "registry_probed_ok ?m ?h ?d"
    unfolding p by (intro tick_keeps_probed_ok)
  from Cons.IH [OF this dist] show ?case
    by (subst dialed_handles_Cons, subst probe_history_Cons) (simp add: p)
qed

lemma new_probed_ok: "registry_probed_ok newClientConnManager [] []"
  by (simp add: registry_probed_ok_def newClientConnManager_def connSet_at_def)

lemma tick_probe_fails_registered:
  "connSet_at m endpoint = Some cc \<Longrightarrow> probe cc \<noteq> None \<Longrightarrow>
   connSet_at (keepalive_tick endpoint probe dialed m) endpoint = None
   \<and> closeLog (keepalive_tick endpoint probe dialed m) = closeLog m @ [cc]"
  by (auto simp: keepalive_tick_def GetConn_def connSet_at_ResetConn closeLog_ResetConn)

lemma tick_probe_fails_dialed:
  "connSet_at m endpoint = None \<Longrightarrow> dialed = Inr cc \<Longrightarrow> probe cc \<noteq> None \<Longrightarrow>
   connSet (keepalive_tick endpoint probe dialed m) = connSet m
   \<and> endpoints (keepalive_tick endpoint probe dialed m) = endpoints m
   \<and> closeLog (keepalive_tick endpoint probe dialed m) = closeLog m @ [cc]"
  by (auto simp: keepalive_tick_def GetConn_def)

text \<open>
  C7. Take any run of monitoring passes on a new registry, of any tasks in any
  interleaving and with any answers of the probe and of the dial, in which every dial that
  succeeds returns a handle of its own. After the run no registered connection is one
  whose most recent readiness probe has failed. The two ways a probe can fail in a pass:
  when the probe of the registered connection fails, the entry of the endpoint is cleared
  and the connection is closed; when the probe of a connection that has just been dialed
  fails, that connection is closed and the registry (the map and the endpoint sequence)
  stays as it was, so the connection is not registered.
\<close>

theorem keepalive_failed_probe_not_registered:
  "(distinct (dialed_handles passes newClientConnManager) \<longrightarrow>
      connSet_at (keepalive_passes passes newClientConnManager) e = Some c \<longrightarrow>
      \<not> failed_last_probe (probe_history passes newClientConnManager) c)
   \<and> (connSet_at m endpoint = Some cc \<and> probe cc \<noteq> None \<longrightarrow>
        connSet_at (keepalive_tick endpoint probe dialed m) endpoint = None
        \<and> closeLog (keepalive_tick endpoint probe dialed m) = closeLog m @ [cc])
   \<and> (connSet_at m endpoint = None \<and> dialed = Inr cc \<and> probe cc \<noteq> None \<longrightarrow>
        connSet (keepalive_tick endpoint probe dialed m) = connSet m
        \<and> endpoints (keepalive_tick endpoint probe dialed m) = endpoints m
        \<and> closeLog (keepalive_tick endpoint probe dialed m) = closeLog m @ [cc])"
proof -
  have "\<not> failed_last_probe (probe_history passes newClientConnManager) c"
    if "distinct (dialed_handles passes newClientConnManager)"
      and "connSet_at (keepalive_passes passes newClientConnManager) e = Some c"
  proof -
    from that(1) have "registry_probed_ok (keepalive_passes passes newClientConnManager)
        ([] @ probe_history passes newClientConnManager)
        ([] @ dialed_handles passes newClientConnManager)"
      by (intro passes_keep_probed_ok new_probed_ok) simp
    with that(2) show ?thesis
      by (simp add: registry_probed_ok_def)
  qed
  then show ?thesis
    using tick_probe_fails_registered [of m endpoint cc probe dialed]
      tick_probe_fails_dialed [of m endpoint dialed cc probe]
    by blast
qed

theorem keepalive_failed_probe_not_registered_witness:
  "distinct (dialed_handles
       [(''a'', \<lambda>cc. None, Inr 1), (''b'', \<lambda>cc. Some (Errorf ''not ready''), Inr 2),
        (''a'', \<lambda>cc. Some (Errorf ''not ready''), Inr 9), (''a'', \<lambda>cc. None, Inr 3)]
       newClientConnManager)
   \<and> connSet_at (keepalive_passes
       [(''a'', \<lambda>cc. None, Inr 1), (''b'', \<lambda>cc. Some (Errorf ''not ready''), Inr 2),
        (''a'', \<lambda>cc. Some (Errorf ''not ready''), Inr 9), (''a'', \<lambda>cc. None, Inr 3)]
       newClientConnManager) ''a'' = Some 3
   \<and> \<not> failed_last_probe (probe_history
       [(''a'', \<lambda>cc. None, Inr 1), (''b'', \<lambda>cc. Some (Errorf ''not ready''), Inr 2),
        (''a'', \<lambda>cc. Some (Errorf ''not ready''), Inr 9), (''a'', \<lambda>cc. None, Inr 3)]
       newClientConnManager) 3
   \<and> failed_last_probe (probe_history
       [(''a'', \<lambda>cc. None, Inr 1), (''b'', \<lambda>cc. Some (Errorf ''not ready''), Inr 2),
        (''a'', \<lambda>cc. Some (Errorf ''not ready''), Inr 9), (''a'', \<lambda>cc. None, Inr 3)]
       newClientConnManager) 1
   \<and> connSet_at (ResetConn ''a'' (Some 1) newClientConnManager) ''a'' = Some 1
   \<and> connSet_at (keepalive_tick ''a'' (\<lambda>cc. Some (Errorf ''not ready'')) (Inr 9)
         (ResetConn ''a'' (Some 1) newClientConnManager)) ''a'' = None
   \<and> closeLog (keepalive_tick ''a'' (\<lambda>cc. Some (Errorf ''not ready'')) (Inr 9)
         (ResetConn ''a'' (Some 1) newClientConnManager)) = [1]
   \<and> connSet_at newClientConnManager ''b'' = None
   \<and> connSet (keepalive_tick ''b'' (\<lambda>cc. Some (Errorf ''not ready'')) (Inr 2)
         newClientConnManager) = []
   \<and> endpoints (keepalive_tick ''b'' (\<lambda>cc. Some (Errorf ''not ready'')) (Inr 2)
         newClientConnManager) = []
   \<and> closeLog (keepalive_tick ''b'' (\<lambda>cc. Some (Errorf ''not ready'')) (Inr 2)
         newClientConnManager) = [2]"
proof -
  let ?run = "[(''a'', \<lambda>cc. None, Inr 1), (''b'', \<lambda>cc. Some (Errorf ''not ready''), Inr 2),
        (''a'', \<lambda>cc. Some (Errorf ''not ready''), Inr 9), (''a'', \<lambda>cc::conn. None, Inr (3::conn))]"
  have d: "dialed_handles ?run newClientConnManager = [1, 2, 3]"
    by code_simp
  have h: "probe_history ?run newClientConnManager =
      [(1, True), (2, False), (1, False), (3, True)]"
    by code_simp
  have r: "connSet_at (keepalive_passes ?run newClientConnManager) ''a'' = Some 3"
    by code_simp
  have f: "failed_last_probe [(1, True), (2, False), (1, False), (3, True)] 1"
    by (simp add: failed_last_probe_def)
  have a: "connSet_at (ResetConn ''a'' (Some 1) newClientConnManager) ''a'' = Some 1"
    by (simp add: connSet_at_ResetConn)
  have b: "connSet_at newClientConnManager ''b'' = None"
    by (simp add: connSet_at_def newClientConnManager_def)
  have n: "connSet newClientConnManager = []" "endpoints newClientConnManager = []"
    "closeLog newClientConnManager = []"
    by (simp_all add: newClientConnManager_def)
  have l: "closeLog (ResetConn ''a'' (Some 1) newClientConnManager) = []"
    by (simp add: closeLog_ResetConn b [unfolded connSet_at_def] connSet_at_def n
        newClientConnManager_def)
  have dd: "distinct (dialed_handles ?run newClientConnManager)"
    by (simp only: d) simp
  have p: "Some (Errorf ''not ready'') \<noteq> None"
    by simp
  note run = keepalive_failed_probe_not_registered [where passes = ?run and e = "''a''"
      and c = 3 and m = "ResetConn ''a'' (Some 1) newClientConnManager"
      and endpoint = "''a''" and cc = 1 and probe = "\<lambda>cc. Some (Errorf ''not ready'')"
      and dialed = "Inr 9"]
  note dial = keepalive_failed_probe_not_registered [where passes = "[]"
      and m = newClientConnManager and endpoint = "''b''" and cc = 2
      and probe = "\<lambda>cc. Some (Errorf ''not ready'')" and dialed = "Inr 2"]
  from run dd r have c1: "\<not> failed_last_probe (probe_history ?run newClientConnManager) 3"
    by blast
  have c2: "failed_last_probe (probe_history ?run newClientConnManager) 1"
    by (simp only: h f)
  from run a p have c3:
    "connSet_at (keepalive_tick ''a'' (\<lambda>cc. Some (Errorf ''not ready'')) (Inr 9)
         (ResetConn ''a'' (Some 1) newClientConnManager)) ''a'' = None"
    "closeLog (keepalive_tick ''a'' (\<lambda>cc. Some (Errorf ''not ready'')) (Inr 9)
         (ResetConn ''a'' (Some 1) newClientConnManager)) =
       closeLog (ResetConn ''a'' (Some 1) newClientConnManager) @ [1]"
    by blast+
  from dial b p have c4:
    "connSet (keepalive_tick ''b'' (\<lambda>cc. Some (Errorf ''not ready'')) (Inr 2)
         newClientConnManager) = connSet newClientConnManager"
    "endpoints (keepalive_tick ''b'' (\<lambda>cc. Some (Errorf ''not ready'')) (Inr 2)
         newClientConnManager) = endpoints newClientConnManager"
    "closeLog (keepalive_tick ''b'' (\<lambda>cc. Some (Errorf ''not ready'')) (Inr 2)
         newClientConnManager) = closeLog newClientConnManager @ [2]"
    by blast+
  show ?thesis
    by (simp only: dd r c1 c2 a b c3 c4 n l) simp
qed


section \<open>Round robin\<close>

lemma sint_succ: "sint (c :: 32 word) < 2147483647 \<Longrightarrow> sint (c + 1) = sint c + 1"
  using sint_ge [of c]
  by (simp add: sint_word_add signed_take_bit_int_eq_self)

lemma sint_length:
  assumes "n < 2147483648"
  shows "sint (word_of_nat n :: 32 word) = int n"
proof -
  have "sint (word_of_nat n :: 32 word) = sint (word_of_int (int n) :: 32 word)"
    by simp
  also have "\<dots> = signed_take_bit 31 (int n)"
    by (simp only: sint_sbintrunc') simp
  also have "\<dots> = int n"
    using assms by (intro signed_take_bit_int_eq_self) simp_all
  finally show ?thesis .
qed

lemma roundRobin_in_range:
  assumes "endpoints m \<noteq> []" and "cursor_in_range m 1"
  shows "roundRobin m =
    (Inr (connSet_at m (endpoints m ! slot m 0), endpoints m ! slot m 0),
     m\<lparr>lastRoundRobinIdx := lastRoundRobinIdx m + 1\<rparr>)"
proof -
  let ?c = "lastRoundRobinIdx m" and ?n = "length (endpoints m)"
  from assms have n: "0 < ?n" "?n < 2147483648" and c: "- 1 \<le> sint ?c" "sint ?c < 2147483647"
    by (simp_all add: cursor_in_range_def)
  have s: "sint (?c + 1) = sint ?c + 1"
    using c by (simp add: sint_succ)
  have l: "sint (word_of_nat ?n :: 32 word) = int ?n"
    using n by (simp add: sint_length)
  have z: "(word_of_nat ?n :: 32 word) \<noteq> 0"
    using n by (intro of_nat_neq_0) simp_all
  have r: "sint (?c + 1) smod sint (word_of_nat ?n :: 32 word) = (sint ?c + 1) mod int ?n"
    using c by (simp add: s l smod_mod_positive)
  have i: "nat ((sint ?c + 1) mod int ?n) = slot m 0"
    using c by (simp add: slot_def nat_mod_distrib)
  have b: "0 \<le> (sint ?c + 1) mod int ?n" "(sint ?c + 1) mod int ?n < int ?n"
    using n by simp_all
  show ?thesis
    using n z b by (simp add: roundRobin_def Let_def r i)
qed


lemma cursor_in_range_mono: "cursor_in_range m k \<Longrightarrow> j \<le> k \<Longrightarrow> cursor_in_range m j"
  by (simp add: cursor_in_range_def)

lemma cursor_in_range_step:
  "cursor_in_range m (Suc k) \<Longrightarrow>
   cursor_in_range (m\<lparr>lastRoundRobinIdx := lastRoundRobinIdx m + 1\<rparr>) k"
  by (simp add: cursor_in_range_def sint_succ)

lemma slot_step:
  "cursor_in_range m 1 \<Longrightarrow>
   slot (m\<lparr>lastRoundRobinIdx := lastRoundRobinIdx m + 1\<rparr>) j = slot m (Suc j)"
proof -
  assume "cursor_in_range m 1"
  then have c: "- 1 \<le> sint (lastRoundRobinIdx m)" "sint (lastRoundRobinIdx m) < 2147483647"
    by (simp_all add: cursor_in_range_def)
  then have "nat (sint (lastRoundRobinIdx m + 1) + 1) = Suc (nat (sint (lastRoundRobinIdx m) + 1))"
    by (simp add: sint_succ)
  then show ?thesis
    by (simp add: slot_def)
qed

lemma slot_less: "endpoints m \<noteq> [] \<Longrightarrow> slot m k < length (endpoints m)"
  by (simp add: slot_def)

lemma slot_in_set: "endpoints m \<noteq> [] \<Longrightarrow> endpoints m ! slot m k \<in> set (endpoints m)"
  by (simp add: slot_less)

lemma cursor_advance:
  "m\<lparr>lastRoundRobinIdx := lastRoundRobinIdx m + 1\<rparr>
    \<lparr>lastRoundRobinIdx := lastRoundRobinIdx m + 1 + of_nat k\<rparr> =
   m\<lparr>lastRoundRobinIdx := lastRoundRobinIdx m + of_nat (Suc k)\<rparr>"
  by (simp add: add.commute add.left_commute)

lemma loop_finds_live:
  assumes "endpoints m \<noteq> []" and "[] \<notin> set (endpoints m)" and "firstEndpoint \<noteq> []"
    and "cursor_in_range m (Suc d)" and "d < fuel"
    and "\<forall>j<d. connSet_at m (endpoints m ! slot m j) = None
               \<and> endpoints m ! slot m j \<noteq> firstEndpoint"
    and "connSet_at m (endpoints m ! slot m d) = Some x"
  shows "RoundRobinConn_loop fuel firstEndpoint m =
           Some (Inr x, m\<lparr>lastRoundRobinIdx := lastRoundRobinIdx m + of_nat (Suc d)\<rparr>)"
  using assms
proof (induction d arbitrary: m fuel)
  case 0
  then obtain f where fuel: "fuel = Suc f" by (cases fuel) auto
  from 0 have "roundRobin m =
      (Inr (Some x, endpoints m ! slot m 0), m\<lparr>lastRoundRobinIdx := lastRoundRobinIdx m + 1\<rparr>)"
    by (simp add: roundRobin_in_range)
  moreover from 0 have "endpoints m ! slot m 0 \<noteq> []"
    using slot_in_set [of m 0] by auto
  ultimately show ?case
    by (simp add: fuel)
next
  case (Suc d)
  then obtain f where fuel: "fuel = Suc f" and f: "d < f" by (cases fuel) auto
  let ?m = "m\<lparr>lastRoundRobinIdx := lastRoundRobinIdx m + 1\<rparr>"
  from Suc.prems have r1: "cursor_in_range m 1"
    by (auto intro: cursor_in_range_mono)
  from Suc.prems have dead: "connSet_at m (endpoints m ! slot m 0) = None"
    and other: "endpoints m ! slot m 0 \<noteq> firstEndpoint"
    by auto
  from Suc.prems r1 have rr: "roundRobin m = (Inr (None, endpoints m ! slot m 0), ?m)"
    by (simp add: roundRobin_in_range dead)
  from Suc.prems have ne: "endpoints m ! slot m 0 \<noteq> []"
    using slot_in_set [of m 0] by auto
  have "RoundRobinConn_loop f firstEndpoint ?m =
      Some (Inr x, ?m\<lparr>lastRoundRobinIdx := lastRoundRobinIdx ?m + of_nat (Suc d)\<rparr>)"
  proof (rule Suc.IH)
    show "cursor_in_range ?m (Suc d)"
      using Suc.prems by (intro cursor_in_range_step)
    show "\<forall>j<d. connSet_at ?m (endpoints ?m ! slot ?m j) = None
               \<and> endpoints ?m ! slot ?m j \<noteq> firstEndpoint"
      using Suc.prems(6) by (auto simp: slot_step [OF r1])
    show "connSet_at ?m (endpoints ?m ! slot ?m d) = Some x"
      using Suc.prems(7) by (simp add: slot_step [OF r1])
  qed (use Suc.prems f in simp_all)
  then show ?case
    using Suc.prems(3) other ne
    by (simp add: fuel rr cursor_advance del: of_nat_Suc)
qed


lemma mod_hits:
  assumes "(i::nat) < n"
  shows "\<exists>j<n. (p + j) mod n = i"
proof (intro exI conjI)
  let ?j = "(i + n - p mod n) mod n"
  from assms show "?j < n" by simp
  from assms have "p mod n < n" by simp
  then have "p + (i + n - p mod n) = (p - p mod n) + (i + n)"
    by simp
  also have "\<dots> = n * (p div n) + (i + n)"
    by (simp only: minus_mod_eq_mult_div)
  finally have "(p + (i + n - p mod n)) mod n = i"
    using assms by simp
  then show "(p + ?j) mod n = i"
    by (simp add: mod_add_right_eq)
qed

lemma mod_shift_neq: "0 < (k::nat) \<Longrightarrow> k < n \<Longrightarrow> (p + k) mod n \<noteq> p mod n"
  using mod_eq_dvd_iff_nat by auto

lemma slot_hits:
  assumes "e \<in> set (endpoints m)"
  shows "\<exists>j<length (endpoints m). endpoints m ! slot m j = e"
proof -
  from assms obtain i where "i < length (endpoints m)" "endpoints m ! i = e"
    by (auto simp: in_set_conv_nth)
  with mod_hits [of i "length (endpoints m)" "nat (sint (lastRoundRobinIdx m) + 1)"]
  show ?thesis
    by (auto simp: slot_def)
qed

lemma slot_neq_first:
  assumes "distinct (endpoints m)" and "0 < k" and "k < length (endpoints m)"
  shows "endpoints m ! slot m k \<noteq> endpoints m ! slot m 0"
proof -
  from assms have "slot m k \<noteq> slot m 0"
    by (simp add: slot_def mod_shift_neq)
  moreover from assms have "endpoints m \<noteq> []"
    by auto
  then have "slot m k < length (endpoints m)" "slot m 0 < length (endpoints m)"
    by (simp_all add: slot_less)
  ultimately show ?thesis
    using assms(1) by (simp add: nth_eq_iff_index_eq)
qed

text \<open>
  What \<^verbatim>\<open>RoundRobinConn\<close> does on a registry whose endpoint sequence has no duplicates and
  no empty endpoint name, whose cursor is in range for as many calls as there are
  endpoints, and in which an endpoint of the sequence has a live connection: it returns,
  after at least one and at most as many calls of \<^verbatim>\<open>roundRobin\<close> as there are endpoints, the
  live connection of an endpoint of the sequence, and it leaves the registry as it was but
  for the cursor, which it has advanced once for each call: nothing is dialed, probed or
  closed.
\<close>

lemma RoundRobinConn_finds_live:
  assumes "distinct (endpoints m)" and "[] \<notin> set (endpoints m)"
    and "cursor_in_range m (length (endpoints m))"
    and "e \<in> set (endpoints m)" and "connSet_at m e \<noteq> None"
    and "length (endpoints m) \<le> fuel"
  shows "\<exists>c e' k. RoundRobinConn fuel m =
             Some (Inr c, m\<lparr>lastRoundRobinIdx := lastRoundRobinIdx m + of_nat k\<rparr>)
           \<and> e' \<in> set (endpoints m) \<and> connSet_at m e' = Some c
           \<and> 1 \<le> k \<and> k \<le> length (endpoints m)"
proof -
  let ?n = "length (endpoints m)"
  let ?live = "\<lambda>j. connSet_at m (endpoints m ! slot m j) \<noteq> None"
  define d where "d = (LEAST j. ?live j)"
  from assms(4) have ne: "endpoints m \<noteq> []" by auto
  from slot_hits [OF assms(4)] obtain j where j: "j < ?n" "endpoints m ! slot m j = e"
    by blast
  with assms(5) have "?live j" by simp
  then have live: "?live d" and least: "d \<le> j"
    unfolding d_def by (rule LeastI, rule Least_le)
  have dead: "connSet_at m (endpoints m ! slot m i) = None" if "i < d" for i
    using not_less_Least [of i ?live] that unfolding d_def by simp
  from least j have dn: "d < ?n" by simp
  from live obtain x where x: "connSet_at m (endpoints m ! slot m d) = Some x"
    by auto
  have range: "cursor_in_range m (Suc d)"
    using assms(3) dn by (auto intro: cursor_in_range_mono)
  have in_set: "endpoints m ! slot m d \<in> set (endpoints m)"
    using ne by (rule slot_in_set)
  have "RoundRobinConn fuel m =
      Some (Inr x, m\<lparr>lastRoundRobinIdx := lastRoundRobinIdx m + of_nat (Suc d)\<rparr>)"
  proof (cases d)
    case 0
    from dn assms(6) obtain f where fuel: "fuel = Suc f" by (cases fuel) auto
    from ne range x have "roundRobin m =
        (Inr (Some x, endpoints m ! slot m 0), m\<lparr>lastRoundRobinIdx := lastRoundRobinIdx m + 1\<rparr>)"
      by (simp add: roundRobin_in_range 0)
    moreover from assms(2) have "endpoints m ! slot m 0 \<noteq> []"
      using slot_in_set [OF ne, of 0] by auto
    ultimately show ?thesis
      by (simp add: RoundRobinConn_def fuel 0)
  next
    case (Suc d')
    from dn assms(6) obtain f where fuel: "fuel = Suc f" and f: "d' < f"
      by (cases fuel) (auto simp: Suc)
    let ?m = "m\<lparr>lastRoundRobinIdx := lastRoundRobinIdx m + 1\<rparr>"
    let ?first = "endpoints m ! slot m 0"
    from range have r1: "cursor_in_range m 1"
      by (auto intro: cursor_in_range_mono)
    from dead [of 0] have d0: "connSet_at m ?first = None"
      by (simp add: Suc)
    from ne r1 have rr: "roundRobin m = (Inr (None, ?first), ?m)"
      by (simp add: roundRobin_in_range d0)
    from assms(2) have first: "?first \<noteq> []"
      using slot_in_set [OF ne, of 0] by auto
    have "RoundRobinConn_loop f ?first ?m =
        Some (Inr x, ?m\<lparr>lastRoundRobinIdx := lastRoundRobinIdx ?m + of_nat (Suc d')\<rparr>)"
    proof (rule loop_finds_live)
      show "cursor_in_range ?m (Suc d')"
        using range unfolding Suc by (rule cursor_in_range_step)
      show "\<forall>j<d'. connSet_at ?m (endpoints ?m ! slot ?m j) = None
                 \<and> endpoints ?m ! slot ?m j \<noteq> ?first"
      proof (intro allI impI)
        fix j assume "j < d'"
        then have "Suc j < d" "0 < Suc j" "Suc j < ?n"
          using dn by (simp_all add: Suc)
        with dead [of "Suc j"] slot_neq_first [OF assms(1), of "Suc j"]
        show "connSet_at ?m (endpoints ?m ! slot ?m j) = None
                 \<and> endpoints ?m ! slot ?m j \<noteq> ?first"
          by (simp add: slot_step [OF r1])
      qed
      show "connSet_at ?m (endpoints ?m ! slot ?m d') = Some x"
        using x by (simp add: slot_step [OF r1] Suc)
    qed (use ne assms(2) first f in simp_all)
    then show ?thesis
      using first by (simp add: RoundRobinConn_def fuel rr Suc cursor_advance del: of_nat_Suc)
  qed
  with x in_set dn show ?thesis
    by (intro exI [of _ x] exI [of _ "endpoints m ! slot m d"] exI [of _ "Suc d"]) simp
qed

lemma RoundRobinConn_finds_live_example:
  "ResetConn_calls [(''a'', None), (''b'', Some 7), (''c'', None)] newClientConnManager =
     \<lparr>connSet = [(''a'', None), (''b'', Some 7), (''c'', None)],
        endpoints = [''a'', ''b'', ''c''], lastRoundRobinIdx = - 1, closeLog = []\<rparr>
   \<and> distinct (endpoints
     \<lparr>connSet = [(''a'', None), (''b'', Some 7), (''c'', None)],
        endpoints = [''a'', ''b'', ''c''], lastRoundRobinIdx = - 1, closeLog = []\<rparr>)
   \<and> '''' \<notin> set (endpoints
     \<lparr>connSet = [(''a'', None), (''b'', Some 7), (''c'', None)],
        endpoints = [''a'', ''b'', ''c''], lastRoundRobinIdx = - 1, closeLog = []\<rparr>)
   \<and> cursor_in_range
     \<lparr>connSet = [(''a'', None), (''b'', Some 7), (''c'', None)],
        endpoints = [''a'', ''b'', ''c''], lastRoundRobinIdx = - 1, closeLog = []\<rparr>
     (length (endpoints
     \<lparr>connSet = [(''a'', None), (''b'', Some 7), (''c'', None)],
        endpoints = [''a'', ''b'', ''c''], lastRoundRobinIdx = - 1, closeLog = []\<rparr>))
   \<and> ''b'' \<in> set (endpoints
     \<lparr>connSet = [(''a'', None), (''b'', Some 7), (''c'', None)],
        endpoints = [''a'', ''b'', ''c''], lastRoundRobinIdx = - 1, closeLog = []\<rparr>)
   \<and> connSet_at
     \<lparr>connSet = [(''a'', None), (''b'', Some 7), (''c'', None)],
        endpoints = [''a'', ''b'', ''c''], lastRoundRobinIdx = - 1, closeLog = []\<rparr> ''b'' \<noteq> None
   \<and> length (endpoints
     \<lparr>connSet = [(''a'', None), (''b'', Some 7), (''c'', None)],
        endpoints = [''a'', ''b'', ''c''], lastRoundRobinIdx = - 1, closeLog = []\<rparr>) \<le> 3
   \<and> RoundRobinConn 3
     \<lparr>connSet = [(''a'', None), (''b'', Some 7), (''c'', None)],
        endpoints = [''a'', ''b'', ''c''], lastRoundRobinIdx = - 1, closeLog = []\<rparr> =
       Some (Inr 7,
     \<lparr>connSet = [(''a'', None), (''b'', Some 7), (''c'', None)],
        endpoints = [''a'', ''b'', ''c''], lastRoundRobinIdx = - 1, closeLog = []\<rparr>\<lparr>lastRoundRobinIdx := 1\<rparr>)
   \<and> (\<exists>c e' k. RoundRobinConn 3
     \<lparr>connSet = [(''a'', None), (''b'', Some 7), (''c'', None)],
        endpoints = [''a'', ''b'', ''c''], lastRoundRobinIdx = - 1, closeLog = []\<rparr> =
         Some (Inr c,
     \<lparr>connSet = [(''a'', None), (''b'', Some 7), (''c'', None)],
        endpoints = [''a'', ''b'', ''c''], lastRoundRobinIdx = - 1, closeLog = []\<rparr>\<lparr>lastRoundRobinIdx := lastRoundRobinIdx
     \<lparr>connSet = [(''a'', None), (''b'', Some 7), (''c'', None)],
        endpoints = [''a'', ''b'', ''c''], lastRoundRobinIdx = - 1, closeLog = []\<rparr> + of_nat k\<rparr>)
       \<and> e' \<in> set (endpoints
     \<lparr>connSet = [(''a'', None), (''b'', Some 7), (''c'', None)],
        endpoints = [''a'', ''b'', ''c''], lastRoundRobinIdx = - 1, closeLog = []\<rparr>)
       \<and> connSet_at
     \<lparr>connSet = [(''a'', None), (''b'', Some 7), (''c'', None)],
        endpoints = [''a'', ''b'', ''c''], lastRoundRobinIdx = - 1, closeLog = []\<rparr> e' = Some c
       \<and> 1 \<le> k \<and> k \<le> length (endpoints
     \<lparr>connSet = [(''a'', None), (''b'', Some 7), (''c'', None)],
        endpoints = [''a'', ''b'', ''c''], lastRoundRobinIdx = - 1, closeLog = []\<rparr>))"
proof -
  let ?m = "\<lparr>connSet = [(''a'', None), (''b'', Some (7::nat)), (''c'', None)],
             endpoints = [''a'', ''b'', ''c''], lastRoundRobinIdx = - 1, closeLog = []\<rparr>"
  have m: "ResetConn_calls [(''a'', None), (''b'', Some 7), (''c'', None)]
      newClientConnManager = ?m"
    by code_simp
  have h1: "distinct (endpoints ?m)" and h2: "'''' \<notin> set (endpoints ?m)"
    and h4: "''b'' \<in> set (endpoints ?m)" and h6: "length (endpoints ?m) \<le> 3"
    by simp_all
  have h3: "cursor_in_range ?m (length (endpoints ?m))"
    by (simp add: cursor_in_range_def)
  have h5: "connSet_at ?m ''b'' \<noteq> None"
    by (simp add: connSet_at_def)
  have r: "RoundRobinConn 3 ?m = Some (Inr 7, ?m\<lparr>lastRoundRobinIdx := 1\<rparr>)"
    by code_simp
  from m h1 h2 h3 h4 h5 h6 r RoundRobinConn_finds_live [OF h1 h2 h3 h4 h5 h6]
  show ?thesis
    by (intro conjI)
qed

text \<open>
  An endpoint with the empty name is not told apart from an empty endpoint sequence:
  \<^verbatim>\<open>roundRobin\<close> returns its connection with the endpoint name \<^verbatim>\<open>""\<close>, and \<^verbatim>\<open>RoundRobinConn\<close>
  tests \<^verbatim>\<open>endpoint == ""\<close> first and returns the error.
\<close>

lemma RoundRobinConn_empty_name_error:
  "connSet_at (ResetConn '''' (Some 1) newClientConnManager) '''' = Some 1
   \<and> endpoints (ResetConn '''' (Some 1) newClientConnManager) = ['''']
   \<and> lastRoundRobinIdx (ResetConn '''' (Some 1) newClientConnManager) = - 1
   \<and> map_option fst (RoundRobinConn 2 (ResetConn '''' (Some 1) newClientConnManager)) =
       Some (Inl NoAvailableConnection)"
  by code_simp

text \<open>
  C3. The claim: whenever an endpoint has a live connection, \<^verbatim>\<open>RoundRobinConn\<close> returns a
  live connection, within \<open>N + 1\<close> probes. The duplicates that \<^verbatim>\<open>ResetConn\<close> leaves in the
  endpoint sequence break this: after \<open>''a''\<close> and \<open>''b''\<close> have been registered and \<open>''a''\<close>
  has been cleared (its probe failed), the sequence is \<open>''a''\<close>, \<open>''a''\<close>, \<open>''b''\<close>; the loop
  sees \<open>''a''\<close> twice in a row, takes the round as complete and returns the error although
  \<open>''b''\<close> is live.
\<close>

theorem RoundRobinConn_misses_live:
  "endpoints (ResetConn_calls [(''a'', Some 1), (''b'', Some 2), (''a'', None)]
      newClientConnManager) = [''a'', ''a'', ''b'']
   \<and> connSet_at (ResetConn_calls [(''a'', Some 1), (''b'', Some 2), (''a'', None)]
      newClientConnManager) ''b'' = Some 2
   \<and> map_option fst (RoundRobinConn 4 (ResetConn_calls
      [(''a'', Some 1), (''b'', Some 2), (''a'', None)] newClientConnManager)) =
       Some (Inl NoAvailableConnection)"
  by code_simp

section \<open>Round robin: rotation, and the case of no live connection\<close>

text \<open>
  On a non-empty endpoint sequence every call of \<^verbatim>\<open>roundRobin\<close> adds one to the cursor, a
  panic or not, so \<open>n\<close> calls add \<open>n\<close> (modulo \<open>2 ^ 32\<close>).
\<close>

lemma roundRobin_times_cursor:
  "endpoints m \<noteq> [] \<Longrightarrow>
   snd (roundRobin_times n m) = m\<lparr>lastRoundRobinIdx := lastRoundRobinIdx m + of_nat n\<rparr>"
proof (induction n arbitrary: m)
  case 0
  show ?case by simp
next
  case (Suc n)
  let ?m = "m\<lparr>lastRoundRobinIdx := lastRoundRobinIdx m + 1\<rparr>"
  from Suc.prems have "snd (roundRobin m) = ?m"
    by (simp add: roundRobin_frame)
  moreover from Suc.prems have "snd (roundRobin_times n ?m) =
      ?m\<lparr>lastRoundRobinIdx := lastRoundRobinIdx ?m + of_nat n\<rparr>"
    by (intro Suc.IH) simp
  ultimately show ?case
    by (simp add: split_beta cursor_advance del: of_nat_Suc)
qed

lemma roundRobin_times_in_range:
  "endpoints m \<noteq> [] \<Longrightarrow> cursor_in_range m n \<Longrightarrow>
   fst (roundRobin_times n m) =
     map (\<lambda>k. Inr (connSet_at m (endpoints m ! slot m k), endpoints m ! slot m k)) [0..<n]"
proof (induction n arbitrary: m)
  case 0
  show ?case by simp
next
  case (Suc n)
  let ?m = "m\<lparr>lastRoundRobinIdx := lastRoundRobinIdx m + 1\<rparr>"
  from Suc.prems have r1: "cursor_in_range m 1"
    by (auto intro: cursor_in_range_mono)
  with Suc.prems have rr: "roundRobin m =
      (Inr (connSet_at m (endpoints m ! slot m 0), endpoints m ! slot m 0), ?m)"
    by (simp add: roundRobin_in_range)
  from Suc.prems have "fst (roundRobin_times n ?m) =
      map (\<lambda>k. Inr (connSet_at ?m (endpoints ?m ! slot ?m k), endpoints ?m ! slot ?m k)) [0..<n]"
    by (intro Suc.IH cursor_in_range_step) simp_all
  then have "fst (roundRobin_times n ?m) =
      map (\<lambda>k. Inr (connSet_at m (endpoints m ! slot m (Suc k)), endpoints m ! slot m (Suc k)))
        [0..<n]"
    by (simp add: slot_step [OF r1])
  moreover have "[0..<Suc n] = 0 # map Suc [0..<n]"
    by (simp add: upt_conv_Cons map_Suc_upt del: upt_Suc)
  ultimately show ?case
    by (simp add: rr split_beta comp_def del: upt_Suc)
qed

text \<open>
  While the cursor is in range, as many calls of \<^verbatim>\<open>roundRobin\<close> as there are endpoints
  return the endpoint sequence rotated to the position of the cursor, each entry with its
  connection, whatever is live.
\<close>

lemma roundRobin_rotation:
  assumes "endpoints m \<noteq> []" and "cursor_in_range m (length (endpoints m))"
  shows "fst (roundRobin_times (length (endpoints m)) m) =
           map (\<lambda>e. Inr (connSet_at m e, e)) (rotate (slot m 0) (endpoints m))"
proof -
  have "map (\<lambda>k. endpoints m ! slot m k) [0..<length (endpoints m)] =
      rotate (slot m 0) (endpoints m)"
    by (rule nth_equalityI) (simp_all add: nth_rotate slot_def mod_add_left_eq)
  then have "map (\<lambda>e. Inr (connSet_at m e, e)) (rotate (slot m 0) (endpoints m)) =
      map (\<lambda>e. Inr (connSet_at m e, e))
        (map (\<lambda>k. endpoints m ! slot m k) [0..<length (endpoints m)])"
    by simp
  also have "\<dots> = fst (roundRobin_times (length (endpoints m)) m)"
    by (simp only: roundRobin_times_in_range [OF assms] map_map comp_def)
  finally show ?thesis by simp
qed

lemma FirstAvailableConn_range_none:
  "\<forall>e \<in> set es. connSet_at m e = None \<Longrightarrow>
   FirstAvailableConn_range m es = Inl NoAvailableConnection"
  by (induction es) simp_all

lemma loop_back_to_first:
  assumes "endpoints m \<noteq> []" and "\<forall>e \<in> set (endpoints m). connSet_at m e = None"
    and "firstEndpoint \<noteq> []" and "cursor_in_range m (Suc d)" and "d < fuel"
    and "endpoints m ! slot m d = firstEndpoint"
  shows "\<exists>k. RoundRobinConn_loop fuel firstEndpoint m =
           Some (Inl NoAvailableConnection,
                 m\<lparr>lastRoundRobinIdx := lastRoundRobinIdx m + of_nat k\<rparr>)
         \<and> 1 \<le> k \<and> k \<le> Suc d"
  using assms
proof (induction d arbitrary: m fuel)
  case 0
  then obtain f where fuel: "fuel = Suc f" by (cases fuel) auto
  from 0 have "connSet_at m (endpoints m ! slot m 0) = None"
    using slot_in_set [of m 0] by blast
  with 0 have "roundRobin m =
      (Inr (None, firstEndpoint), m\<lparr>lastRoundRobinIdx := lastRoundRobinIdx m + 1\<rparr>)"
    by (simp add: roundRobin_in_range)
  with 0 have "RoundRobinConn_loop fuel firstEndpoint m =
      Some (Inl NoAvailableConnection, m\<lparr>lastRoundRobinIdx := lastRoundRobinIdx m + of_nat 1\<rparr>)"
    by (simp add: fuel)
  then show ?case by (intro exI [of _ 1]) simp
next
  case (Suc d)
  then obtain f where fuel: "fuel = Suc f" and f: "d < f" by (cases fuel) auto
  let ?m = "m\<lparr>lastRoundRobinIdx := lastRoundRobinIdx m + 1\<rparr>"
  let ?e = "endpoints m ! slot m 0"
  from Suc.prems have r1: "cursor_in_range m 1"
    by (auto intro: cursor_in_range_mono)
  from Suc.prems have "connSet_at m ?e = None"
    using slot_in_set [of m 0] by blast
  with Suc.prems r1 have rr: "roundRobin m = (Inr (None, ?e), ?m)"
    by (simp add: roundRobin_in_range)
  show ?case
  proof (cases "?e = [] \<or> ?e = firstEndpoint")
    case True
    with Suc.prems(3) have "RoundRobinConn_loop fuel firstEndpoint m =
        Some (Inl NoAvailableConnection, m\<lparr>lastRoundRobinIdx := lastRoundRobinIdx m + of_nat 1\<rparr>)"
      by (auto simp: fuel rr)
    then show ?thesis by (intro exI [of _ 1]) simp
  next
    case False
    have "\<exists>k. RoundRobinConn_loop f firstEndpoint ?m =
           Some (Inl NoAvailableConnection,
                 ?m\<lparr>lastRoundRobinIdx := lastRoundRobinIdx ?m + of_nat k\<rparr>)
         \<and> 1 \<le> k \<and> k \<le> Suc d"
    proof (rule Suc.IH)
      show "cursor_in_range ?m (Suc d)"
        using Suc.prems by (intro cursor_in_range_step)
      show "endpoints ?m ! slot ?m d = firstEndpoint"
        using Suc.prems by (simp add: slot_step [OF r1])
    qed (use Suc.prems f in simp_all)
    then obtain k where k: "RoundRobinConn_loop f firstEndpoint ?m =
           Some (Inl NoAvailableConnection,
                 ?m\<lparr>lastRoundRobinIdx := lastRoundRobinIdx ?m + of_nat k\<rparr>)"
        "1 \<le> k" "k \<le> Suc d"
      by blast
    moreover from False have "?e \<noteq> []" "firstEndpoint \<noteq> ?e"
      by auto
    ultimately have "RoundRobinConn_loop fuel firstEndpoint m =
        Some (Inl NoAvailableConnection,
              m\<lparr>lastRoundRobinIdx := lastRoundRobinIdx m + of_nat (Suc k)\<rparr>)"
      using Suc.prems(3) by (simp add: fuel rr cursor_advance del: of_nat_Suc)
    with k show ?thesis by (intro exI [of _ "Suc k"]) simp
  qed
qed

text \<open>
  While the cursor is in range and no endpoint of the sequence has a live connection,
  \<^verbatim>\<open>RoundRobinConn\<close> returns the error after at most one call of \<^verbatim>\<open>roundRobin\<close> more than there
  are endpoints, and changes nothing but the cursor.
\<close>

lemma RoundRobinConn_none_live_in_range:
  assumes "\<forall>e \<in> set (endpoints m). connSet_at m e = None"
    and "cursor_in_range m (Suc (length (endpoints m)))"
    and "length (endpoints m) < fuel"
  shows "\<exists>k. RoundRobinConn fuel m =
           Some (Inl NoAvailableConnection,
                 m\<lparr>lastRoundRobinIdx := lastRoundRobinIdx m + of_nat k\<rparr>)
         \<and> k \<le> Suc (length (endpoints m))"
proof (cases "endpoints m = []")
  case True
  from assms(3) obtain f where "fuel = Suc f" by (cases fuel) auto
  with True have "RoundRobinConn fuel m =
      Some (Inl NoAvailableConnection, m\<lparr>lastRoundRobinIdx := lastRoundRobinIdx m + of_nat 0\<rparr>)"
    by (simp add: RoundRobinConn_def roundRobin_def)
  then show ?thesis by (intro exI [of _ 0]) simp
next
  case ne: False
  let ?n = "length (endpoints m)"
  from assms(3) obtain f where fuel: "fuel = Suc f"
    by (cases fuel) auto
  from ne assms(3) have f: "?n - 1 < f"
    unfolding fuel by (cases "endpoints m") simp_all
  let ?m = "m\<lparr>lastRoundRobinIdx := lastRoundRobinIdx m + 1\<rparr>"
  let ?e = "endpoints m ! slot m 0"
  from assms(2) have r1: "cursor_in_range m 1"
    by (auto intro: cursor_in_range_mono)
  from assms(1) ne have "connSet_at m ?e = None"
    using slot_in_set [of m 0] by blast
  with ne r1 have rr: "roundRobin m = (Inr (None, ?e), ?m)"
    by (simp add: roundRobin_in_range)
  show ?thesis
  proof (cases "?e = []")
    case True
    then have "RoundRobinConn fuel m =
        Some (Inl NoAvailableConnection, m\<lparr>lastRoundRobinIdx := lastRoundRobinIdx m + of_nat 1\<rparr>)"
      by (simp add: RoundRobinConn_def fuel rr)
    then show ?thesis by (intro exI [of _ 1]) simp
  next
    case False
    from ne have n: "Suc (?n - 1) = ?n" by simp
    have "\<exists>k. RoundRobinConn_loop f ?e ?m =
           Some (Inl NoAvailableConnection,
                 ?m\<lparr>lastRoundRobinIdx := lastRoundRobinIdx ?m + of_nat k\<rparr>)
         \<and> 1 \<le> k \<and> k \<le> Suc (?n - 1)"
    proof (rule loop_back_to_first)
      show "cursor_in_range ?m (Suc (?n - 1))"
        using assms(2) by (simp only: n) (rule cursor_in_range_step)
      have "slot m (Suc (?n - 1)) = slot m 0"
        by (simp only: n) (simp add: slot_def)
      then show "endpoints ?m ! slot ?m (?n - 1) = ?e"
        by (simp add: slot_step [OF r1])
    qed (use ne assms(1) False f in simp_all)
    then obtain k where k: "RoundRobinConn_loop f ?e ?m =
           Some (Inl NoAvailableConnection,
                 ?m\<lparr>lastRoundRobinIdx := lastRoundRobinIdx ?m + of_nat k\<rparr>)"
        "k \<le> ?n"
      using n by auto
    with False have "RoundRobinConn fuel m =
        Some (Inl NoAvailableConnection,
              m\<lparr>lastRoundRobinIdx := lastRoundRobinIdx m + of_nat (Suc k)\<rparr>)"
      by (simp add: RoundRobinConn_def fuel rr cursor_advance del: of_nat_Suc)
    with k show ?thesis by (intro exI [of _ "Suc k"]) simp
  qed
qed

text \<open>
  C8. The claim: with no live connection, \<^verbatim>\<open>FirstAvailableConn\<close> and \<^verbatim>\<open>RoundRobinConn\<close> both
  return the error "no available connection found". Take the registry with the endpoints
  \<open>''a''\<close>, \<open>''b''\<close>, \<open>''c''\<close>, none of them live, after \<open>2 ^ 31\<close> calls of \<^verbatim>\<open>roundRobin\<close>: the
  cursor holds the largest \<^verbatim>\<open>int32\<close>. \<^verbatim>\<open>FirstAvailableConn\<close> returns the error, but in
  \<^verbatim>\<open>RoundRobinConn\<close> the next increment wraps the cursor to the least \<^verbatim>\<open>int32\<close>, its
  remainder by 3 is \<open>-2\<close>, and indexing the slice with it panics: no error value is
  returned.
\<close>

theorem RoundRobinConn_wrapped_cursor_panics:
  "(let m0 = ResetConn_calls [(''a'', None), (''b'', None), (''c'', None)] newClientConnManager;
        m = snd (roundRobin_times 2147483648 m0)
    in endpoints m = [''a'', ''b'', ''c'']
       \<and> connSet_at m ''a'' = None \<and> connSet_at m ''b'' = None \<and> connSet_at m ''c'' = None
       \<and> lastRoundRobinIdx m0 = - 1
       \<and> lastRoundRobinIdx m = 2147483647
       \<and> fst (FirstAvailableConn m) = Inl NoAvailableConnection
       \<and> map_option fst (RoundRobinConn 4 m) = Some (Inl IndexOutOfRange))"
proof -
  let ?m0 = "\<lparr>connSet = [(''a'', None), (''b'', None), (''c'', None)],
      endpoints = [''a'', ''b'', ''c''], lastRoundRobinIdx = - 1, closeLog = []\<rparr>"
  have m0: "ResetConn_calls [(''a'', None), (''b'', None), (''c'', None)]
      newClientConnManager = ?m0"
    by code_simp
  have m: "snd (roundRobin_times 2147483648 ?m0) = ?m0\<lparr>lastRoundRobinIdx := 2147483647\<rparr>"
    by (simp add: roundRobin_times_cursor)
  have "map_option fst (RoundRobinConn 4 (?m0\<lparr>lastRoundRobinIdx := 2147483647\<rparr>)) =
      Some (Inl IndexOutOfRange)"
    by code_simp
  moreover have "fst (FirstAvailableConn (?m0\<lparr>lastRoundRobinIdx := 2147483647\<rparr>)) =
      Inl NoAvailableConnection"
    by code_simp
  ultimately show ?thesis
    unfolding Let_def m0 m by (simp add: connSet_at_def)
qed

text \<open>
  C4. The claim: with all \<open>N\<close> endpoints live and any starting cursor, \<open>N\<close> calls of
  \<^verbatim>\<open>roundRobin\<close> give each endpoint once, in cyclic order. Two inputs on which the code
  does otherwise. After \<^verbatim>\<open>ResetConn\<close> for \<open>''a''\<close>, \<open>''b''\<close> and \<open>''a''\<close> again the sequence
  is \<open>''a''\<close>, \<open>''a''\<close>, \<open>''b''\<close>: two calls give \<open>''a''\<close> twice, three calls give \<open>''a''\<close> twice
  and \<open>''b''\<close> once. And with three live endpoints and the cursor at the largest \<^verbatim>\<open>int32\<close>,
  which \<open>2 ^ 31\<close> calls on a new registry reach, the next call panics.
\<close>

theorem roundRobin_not_fair:
  "(let m = ResetConn_calls [(''a'', Some 1), (''b'', Some 2), (''a'', Some 3)]
              newClientConnManager
    in endpoints m = [''a'', ''a'', ''b'']
       \<and> connSet_at m ''a'' = Some 3 \<and> connSet_at m ''b'' = Some 2
       \<and> fst (roundRobin_times 2 m) = [Inr (Some 3, ''a''), Inr (Some 3, ''a'')]
       \<and> fst (roundRobin_times 3 m) =
           [Inr (Some 3, ''a''), Inr (Some 3, ''a''), Inr (Some 2, ''b'')])
   \<and> (let m0 = ResetConn_calls [(''a'', Some 1), (''b'', Some 2), (''c'', Some 3)]
                  newClientConnManager;
            m = snd (roundRobin_times 2147483648 m0)
        in endpoints m = [''a'', ''b'', ''c'']
           \<and> connSet_at m ''a'' = Some 1 \<and> connSet_at m ''b'' = Some 2
           \<and> connSet_at m ''c'' = Some 3
           \<and> lastRoundRobinIdx m0 = - 1
           \<and> lastRoundRobinIdx m = 2147483647
           \<and> fst (roundRobin m) = Inl IndexOutOfRange)"
proof -
  let ?m0 = "\<lparr>connSet = [(''a'', Some 1), (''b'', Some 2), (''c'', Some (3::nat))],
      endpoints = [''a'', ''b'', ''c''], lastRoundRobinIdx = - 1, closeLog = []\<rparr>"
  have m0: "ResetConn_calls [(''a'', Some 1), (''b'', Some 2), (''c'', Some 3)]
      newClientConnManager = ?m0"
    by code_simp
  have m: "snd (roundRobin_times 2147483648 ?m0) = ?m0\<lparr>lastRoundRobinIdx := 2147483647\<rparr>"
    by (simp add: roundRobin_times_cursor)
  have p: "fst (roundRobin (?m0\<lparr>lastRoundRobinIdx := 2147483647\<rparr>)) = Inl IndexOutOfRange"
    by code_simp
  have d: "(let m = ResetConn_calls [(''a'', Some 1), (''b'', Some 2), (''a'', Some 3)]
              newClientConnManager
    in endpoints m = [''a'', ''a'', ''b'']
       \<and> connSet_at m ''a'' = Some 3 \<and> connSet_at m ''b'' = Some 2
       \<and> fst (roundRobin_times 2 m) = [Inr (Some 3, ''a''), Inr (Some 3, ''a'')]
       \<and> fst (roundRobin_times 3 m) =
           [Inr (Some 3, ''a''), Inr (Some 3, ''a''), Inr (Some 2, ''b'')])"
    by code_simp
  have w: "(let m0 = ResetConn_calls [(''a'', Some 1), (''b'', Some 2), (''c'', Some 3)]
                  newClientConnManager;
            m = snd (roundRobin_times 2147483648 m0)
        in endpoints m = [''a'', ''b'', ''c'']
           \<and> connSet_at m ''a'' = Some 1 \<and> connSet_at m ''b'' = Some 2
           \<and> connSet_at m ''c'' = Some 3
           \<and> lastRoundRobinIdx m0 = - 1
           \<and> lastRoundRobinIdx m = 2147483647
           \<and> fst (roundRobin m) = Inl IndexOutOfRange)"
    unfolding Let_def m0 m using p by (simp add: connSet_at_def)
  from d w show ?thesis ..
qed

end
